theory Spec2Isabelle
  imports Main
begin

section \<open>Paths (the POSIX flavour of os.path)\<close>

text \<open>
  The module manipulates paths with \<^verbatim>\<open>os.path\<close>. The functions below follow
  \<^verbatim>\<open>posixpath\<close>: \<^verbatim>\<open>isabs\<close> tests for a leading slash, \<^verbatim>\<open>join\<close> restarts from an absolute
  second argument, \<^verbatim>\<open>dirname\<close> cuts at the last slash and strips the trailing slashes of
  the head unless the head consists of slashes only.
\<close>

definition isabs :: "string \<Rightarrow> bool" where
  "isabs s = (case s of [] \<Rightarrow> False | c # _ \<Rightarrow> c = CHR ''/'')"

definition path_join :: "string \<Rightarrow> string \<Rightarrow> string" where
  "path_join a b =
     (if isabs b then b
      else if a = [] \<or> last a = CHR ''/'' then a @ b
      else a @ ''/'' @ b)"

definition rstrip_sep :: "string \<Rightarrow> string" where
  "rstrip_sep s = rev (dropWhile (\<lambda>c. c = CHR ''/'') (rev s))"

definition dirname :: "string \<Rightarrow> string" where
  "dirname p =
     (let head = rev (dropWhile (\<lambda>c. c \<noteq> CHR ''/'') (rev p))
      in if head \<noteq> [] \<and> \<not> list_all (\<lambda>c. c = CHR ''/'') head then rstrip_sep head else head)"

section \<open>DataSubpath\<close>

record DataSubpath =
  ds_datadir :: string
  ds_subpath :: string

definition DataSubpath_init :: "string \<Rightarrow> string \<Rightarrow> DataSubpath" where
  "DataSubpath_init datadir subpath =
     (if isabs subpath then \<lparr>ds_datadir = [], ds_subpath = subpath\<rparr>
      else \<lparr>ds_datadir = datadir, ds_subpath = subpath\<rparr>)"

definition ds_fullpath :: "DataSubpath \<Rightarrow> string" where
  "ds_fullpath self = path_join (ds_datadir self) (ds_subpath self)"

definition clone :: "DataSubpath \<Rightarrow> DataSubpath" where
  "clone self = DataSubpath_init (ds_datadir self) (ds_subpath self)"

text \<open>\<^verbatim>\<open>join\<close> overwrites the subpath in place and returns the receiver.\<close>

definition DataSubpath_join :: "DataSubpath \<Rightarrow> string \<Rightarrow> DataSubpath" where
  "DataSubpath_join self path = self\<lparr>ds_subpath := path_join (ds_subpath self) path\<rparr>"

text \<open>The states a program can reach: a constructed object, or a reachable one after
  \<^verbatim>\<open>join\<close> or \<^verbatim>\<open>clone\<close>.\<close>

inductive reachable :: "DataSubpath \<Rightarrow> bool" where
  r_init: "reachable (DataSubpath_init datadir subpath)"
| r_join: "reachable self \<Longrightarrow> reachable (DataSubpath_join self path)"
| r_clone: "reachable self \<Longrightarrow> reachable (clone self)"

text \<open>The invariant the constructor sets up: an absolute subpath goes with an empty
  datadir.\<close>

definition outside_inv :: "DataSubpath \<Rightarrow> bool" where
  "outside_inv self = (if isabs (ds_subpath self) then ds_datadir self = [] else True)"

section \<open>Values and errors\<close>

datatype errno = EEXIST | ENOENT | ENOTDIR | EISDIR | EROFS

datatype pyerror = OSError errno | NotImplementedError | KeyError | TypeError
  | AttributeError | HookError string | ReError

text \<open>The picklable values the cached attributes hold.\<close>

datatype pyval = PNone | PInt int | PStr string | PList "pyval list"
  | PDict "(string \<times> pyval) list"

section \<open>Title prefixes\<close>

text \<open>
  \<^verbatim>\<open>unprefixed_title\<close> matches the title against the pattern
  \<^verbatim>\<open>^(PREFIX)\b\s*(.*)$\<close>, compiled with \<^verbatim>\<open>re.LOCALE\<close> and applied with \<^verbatim>\<open>match\<close>, under the
  interpreter releases the module was written for, which accept that flag on a text
  pattern. With \<^verbatim>\<open>re.LOCALE\<close> the class \<^verbatim>\<open>\s\<close> is the ASCII white space, and \<^verbatim>\<open>\w\<close> is
  \<^verbatim>\<open>isalnum\<close> of the current locale or the underscore: the embedding fixes the C
  locale. The dot matches every character but the line feed, and the dollar matches at
  the end of the text or right before a line feed that ends it.

  The prefix is spliced into the pattern as it is. For a prefix with no
  regular-expression metacharacter (\<open>literal\<close>) the pattern matches the prefix as a
  literal, and the match is computed here (\<open>match_literal\<close>). For any other prefix the
  pattern is what the regular-expression library makes of it: it may not compile
  (\<^verbatim>\<open>re.error\<close>), it may match other texts than the literal, and a group inside the
  prefix becomes group 2, which may be unset. That part of the library is a parameter,
  the \<open>regex_engine\<close>: for a prefix and a title it gives the exception raised, or
  no match, or group 2 of the match.
\<close>

type_synonym regex_engine = "string \<Rightarrow> string \<Rightarrow> pyerror + pyval option"

definition newline :: char where
  "newline = CHR 0x0A"

definition is_space :: "char \<Rightarrow> bool" where
  "is_space c = (c = CHR '' '' \<or> c = CHR 0x09 \<or> c = CHR 0x0A \<or> c = CHR 0x0B
                 \<or> c = CHR 0x0C \<or> c = CHR 0x0D)"

definition is_word :: "char \<Rightarrow> bool" where
  "is_word c =
     (let n = (of_char c :: nat)
      in (48 \<le> n \<and> n \<le> 57) \<or> (65 \<le> n \<and> n \<le> 90) \<or> (97 \<le> n \<and> n \<le> 122) \<or> n = 95)"

definition metachars :: "char list" where
  "metachars = [CHR ''.'', CHR ''^'', CHR ''$'', CHR ''*'', CHR ''+'', CHR ''?'', CHR ''{'',
                CHR ''}'', CHR ''['', CHR '']'', CHR 0x5C, CHR ''|'', CHR ''('', CHR '')'']"

definition literal :: "string \<Rightarrow> bool" where
  "literal p = list_all (\<lambda>c. c \<notin> set metachars) p"

text \<open>\<^verbatim>\<open>\b\<close> between the text already matched and the text that follows.\<close>

definition at_boundary :: "string \<Rightarrow> string \<Rightarrow> bool" where
  "at_boundary before after =
     ((before \<noteq> [] \<and> is_word (last before)) \<noteq> (after \<noteq> [] \<and> is_word (hd after)))"

text \<open>\<^verbatim>\<open>$\<close> without \<^verbatim>\<open>re.MULTILINE\<close>.\<close>

definition at_end :: "string \<Rightarrow> bool" where
  "at_end rest = (rest = [] \<or> rest = [newline])"

text \<open>A greedy starred character class: every split of the text after a run of
  matching characters, the longest run first, as the backtracking matcher tries them.\<close>

definition star_splits :: "(char \<Rightarrow> bool) \<Rightarrow> string \<Rightarrow> (string \<times> string) list" where
  "star_splits c s =
     map (\<lambda>k. (take k s, drop k s)) (rev [0 ..< Suc (length (takeWhile c s))])"

text \<open>The pattern of a literal prefix: group 2 of the first successful match, if there
  is one.\<close>

definition match_literal :: "string \<Rightarrow> string \<Rightarrow> string option" where
  "match_literal prefix title =
     (if take (length prefix) title = prefix \<and> at_boundary prefix (drop (length prefix) title)
      then (case [g2. (ws, r) \<leftarrow> star_splits is_space (drop (length prefix) title),
                      (g2, e) \<leftarrow> star_splits (\<lambda>c. c \<noteq> newline) r, at_end e] of
              [] \<Rightarrow> None
            | g2 # _ \<Rightarrow> Some g2)
      else None)"

text \<open>\<^verbatim>\<open>re.compile(pattern, re.LOCALE).match(title)\<close>, as the exception raised, no match,
  or group 2 of the match.\<close>

definition re_match :: "regex_engine \<Rightarrow> string \<Rightarrow> string \<Rightarrow> pyerror + pyval option" where
  "re_match engine prefix title =
     (if literal prefix then Inr (map_option PStr (match_literal prefix title))
      else engine prefix title)"

fun unprefixed_title :: "regex_engine \<Rightarrow> string \<Rightarrow> string list \<Rightarrow> pyerror + pyval" where
  "unprefixed_title engine title [] = Inr (PStr title)"
| "unprefixed_title engine title (prefix # prefixes) =
     (case re_match engine prefix title of
        Inl e \<Rightarrow> Inl e
      | Inr (Some g2) \<Rightarrow> Inr g2
      | Inr None \<Rightarrow> unprefixed_title engine title prefixes)"

definition whole_word_prefix :: "string \<Rightarrow> string \<Rightarrow> bool" where
  "whole_word_prefix p t = (take (length p) t = p \<and> at_boundary p (drop (length p) t))"

section \<open>The file system\<close>

text \<open>
  A file holds either the pickle stream of a value, which \<^verbatim>\<open>pickle.load\<close> reads back
  as that value, or bytes that are no pickle stream, on which \<^verbatim>\<open>pickle.load\<close> raises.
\<close>

datatype content = Bytes string | Pickle pyval

text \<open>What an observer of a construction can see besides the files: calls of the
  parse hook, logged warnings, cache files opened for unpickling and written.\<close>

datatype event = Parsed string | Warned string | Loaded string | Stored string

text \<open>
  The world: regular files and directories by absolute normalised path (the root
  directory always exists), the current directory, whether the file system refuses
  writes, and the events so far.
\<close>

record world =
  files :: "string \<rightharpoonup> content"
  dirs :: "string set"
  cwd :: string
  readonly :: bool
  trace :: "event list"

text \<open>How many times the parse hook has been called.\<close>

definition parses :: "world \<Rightarrow> nat" where
  "parses w = length (filter (\<lambda>e. case e of Parsed p \<Rightarrow> True | _ \<Rightarrow> False) (trace w))"

subsection \<open>normpath and abspath\<close>

fun split_sep :: "string \<Rightarrow> string list" where
  "split_sep [] = [[]]"
| "split_sep (c # cs) =
     (if c = CHR ''/'' then [] # split_sep cs
      else (case split_sep cs of [] \<Rightarrow> [[c]] | x # xs \<Rightarrow> (c # x) # xs))"

fun join_sep :: "string list \<Rightarrow> string" where
  "join_sep [] = []"
| "join_sep [x] = x"
| "join_sep (x # y # ys) = x @ ''/'' @ join_sep (y # ys)"

definition initial_slashes :: "string \<Rightarrow> nat" where
  "initial_slashes path =
     (if \<not> isabs path then 0
      else if take 2 path = ''//'' \<and> take 3 path \<noteq> ''///'' then 2
      else 1)"

fun norm_comps :: "bool \<Rightarrow> string list \<Rightarrow> string list \<Rightarrow> string list" where
  "norm_comps rooted new_comps [] = new_comps"
| "norm_comps rooted new_comps (part # comps) =
     (if part = [] \<or> part = ''.'' then norm_comps rooted new_comps comps
      else if part \<noteq> ''..'' \<or> (\<not> rooted \<and> new_comps = [])
              \<or> (new_comps \<noteq> [] \<and> last new_comps = ''..'')
        then norm_comps rooted (new_comps @ [part]) comps
      else if new_comps \<noteq> [] then norm_comps rooted (butlast new_comps) comps
      else norm_comps rooted new_comps comps)"

definition normpath :: "string \<Rightarrow> string" where
  "normpath path =
     (if path = [] then ''.''
      else let n = initial_slashes path;
               p = replicate n (CHR ''/'') @ join_sep (norm_comps (n \<noteq> 0) [] (split_sep path))
           in if p = [] then ''.'' else p)"

definition abspath :: "world \<Rightarrow> string \<Rightarrow> string" where
  "abspath w path = normpath (if isabs path then path else path_join (cwd w) path)"

subsection \<open>The operating system calls the module makes\<close>

definition isdir :: "world \<Rightarrow> string \<Rightarrow> bool" where
  "isdir w p = (abspath w p = ''/'' \<or> abspath w p \<in> dirs w)"

definition isfile :: "world \<Rightarrow> string \<Rightarrow> bool" where
  "isfile w p = (files w (abspath w p) \<noteq> None)"

definition exists :: "world \<Rightarrow> string \<Rightarrow> bool" where
  "exists w p = (isfile w p \<or> isdir w p)"

text \<open>\<^verbatim>\<open>open(p, 'rb').read()\<close>\<close>

definition read_file :: "world \<Rightarrow> string \<Rightarrow> pyerror + content" where
  "read_file w p =
     (case files w (abspath w p) of
        Some c \<Rightarrow> Inr c
      | None \<Rightarrow> Inl (OSError (if isdir w p then EISDIR else ENOENT)))"

text \<open>\<^verbatim>\<open>open(p, 'wb')\<close> followed by writing the whole content.\<close>

definition write_file :: "world \<Rightarrow> string \<Rightarrow> content \<Rightarrow> pyerror + world" where
  "write_file w p c =
     (if isdir w p then Inl (OSError EISDIR)
      else if \<not> isdir w (dirname (abspath w p)) then Inl (OSError ENOENT)
      else if readonly w then Inl (OSError EROFS)
      else Inr (w\<lparr>files := (files w)(abspath w p \<mapsto> c)\<rparr>))"

lemma rstrip_sep_length: "length (rstrip_sep s) \<le> length s"
  unfolding rstrip_sep_def
  by (metis length_dropWhile_le length_rev)

lemma dirname_prefix: "\<exists>n. dirname p = take n p"
proof -
  define t where "t = takeWhile (\<lambda>c. c \<noteq> CHR ''/'') (rev p)"
  define h where "h = dropWhile (\<lambda>c. c \<noteq> CHR ''/'') (rev p)"
  have "rev p = t @ h" by (simp add: t_def h_def)
  then have p: "p = rev h @ rev t" by (metis rev_append rev_rev_ident)
  have hd: "rev h = take (length h) p" using p by simp
  define s where "s = takeWhile (\<lambda>c. c = CHR ''/'') h"
  define r where "r = dropWhile (\<lambda>c. c = CHR ''/'') h"
  have "h = s @ r" by (simp add: s_def r_def)
  then have "rev h = rev r @ rev s" by simp
  then have "rev r = take (length r) (rev h)" by simp
  then have rr: "rev r = take (length r) p"
    using hd by (metis length_dropWhile_le min.absorb2 r_def take_take min.commute)
  have "dirname p = rev h \<or> dirname p = rev r"
    by (simp add: dirname_def rstrip_sep_def h_def r_def Let_def)
  then show ?thesis using hd rr by metis
qed

lemma dirname_shorter: "dirname p \<noteq> p \<Longrightarrow> length (dirname p) < length p"
proof -
  assume ne: "dirname p \<noteq> p"
  obtain n where n: "dirname p = take n p" using dirname_prefix by blast
  have "n < length p"
  proof (rule ccontr)
    assume "\<not> n < length p"
    then have "take n p = p" by simp
    with n ne show False by simp
  qed
  then show ?thesis using n by simp
qed

text \<open>The proper ancestors of a path, nearest first.\<close>

function ancestors :: "string \<Rightarrow> string list" where
  "ancestors p =
     (if dirname p = p \<or> dirname p = [] then [] else dirname p # ancestors (dirname p))"
  by pat_completeness auto
termination
  by (relation "measure length") (auto simp: dirname_shorter)

declare ancestors.simps [simp del]

text \<open>
  \<^verbatim>\<open>os.makedirs(name)\<close>: fails with \<^verbatim>\<open>EEXIST\<close> when the leaf exists, with \<^verbatim>\<open>ENOTDIR\<close>
  when an ancestor is a regular file, with \<^verbatim>\<open>EROFS\<close> on a file system that refuses
  writes; otherwise it creates the leaf and every missing ancestor.
\<close>

definition makedirs :: "world \<Rightarrow> string \<Rightarrow> errno + world" where
  "makedirs w name =
     (let k = abspath w name
      in if k = ''/'' \<or> k \<in> dirs w \<or> files w k \<noteq> None then Inl EEXIST
         else if list_ex (\<lambda>a. files w a \<noteq> None) (ancestors k) then Inl ENOTDIR
         else if readonly w then Inl EROFS
         else Inr (w\<lparr>dirs := dirs w \<union> set (k # ancestors k)\<rparr>))"

section \<open>cached_name\<close>

definition cached_name :: "string \<Rightarrow> string \<Rightarrow> world \<Rightarrow> (pyerror + string) \<times> world" where
  "cached_name datadir filename w =
     (let fullpath = abspath w (path_join (path_join datadir ''.cache'') filename);
          directory = dirname fullpath
      in case makedirs w directory of
           Inr w' \<Rightarrow> (Inr fullpath, w')
         | Inl e \<Rightarrow>
             if e = EEXIST \<and> isdir w directory then (Inr fullpath, w)
             else (Inl (OSError e), w))"

text \<open>A small world for the examples: a song under the datadir \<^verbatim>\<open>d\<close>, a datadir
  \<^verbatim>\<open>e\<close> that has its cache directory, and a datadir \<^verbatim>\<open>f\<close> where a regular file
  stands in its place.\<close>

definition ex_world :: world where
  "ex_world = \<lparr>files = [''/w/d/a.sg'' \<mapsto> Bytes ''The Song'', ''/w/f/.cache'' \<mapsto> Bytes ''x''],
     dirs = {''/w'', ''/w/d'', ''/w/f'', ''/w/e'', ''/w/e/.cache''}, cwd = ''/w'', readonly = False, trace = []\<rparr>"

section \<open>Song\<close>

text \<open>
  The configuration keys the class reads: \<^verbatim>\<open>encoding\<close>, \<^verbatim>\<open>titleprefixwords\<close>,
  \<^verbatim>\<open>_compiled_authwords\<close> (optional) and \<^verbatim>\<open>datadir\<close>.
\<close>

record config =
  cfg_encoding :: string
  cfg_titleprefixwords :: "string list"
  cfg_compiled_authwords :: "(string \<times> pyval) list option"
  cfg_datadir :: "string list"

text \<open>What \<^verbatim>\<open>_parse\<close> sets, by its docstring: the raw titles, the languages, the raw
  authors, the metadata and the additional data to cache.\<close>

record parsed =
  p_titles :: "string list"
  p_languages :: "string list"
  p_authors :: "string list"
  p_data :: "(string \<times> pyval) list"
  p_cached :: pyval

text \<open>
  The collaborators that are not part of the module: the MD5 digest, the parse hook
  of the subclass (it reads the files, and may raise), \<^verbatim>\<open>process_listauthors\<close> with
  its keyword options, and the regular-expression library on the patterns of the
  prefixes that are not literal.
\<close>

record env =
  md5_hexdigest :: "content \<Rightarrow> string"
  parse_hook :: "(string \<rightharpoonup> content) \<Rightarrow> string \<Rightarrow> string \<Rightarrow> config \<Rightarrow> pyerror + parsed"
  process_listauthors :: "string list \<Rightarrow> (string \<times> pyval) list \<Rightarrow> pyval"
  re_engine :: regex_engine

text \<open>A song: the attributes the constructor always sets, and the namespace of the
  attributes that are cached, by name.\<close>

record song =
  s_datadir :: string
  s_fullpath :: string
  s_encoding :: string
  s_config :: config
  attrs :: "string \<rightharpoonup> pyval"

definition CACHE_VERSION :: int where
  "CACHE_VERSION = 2"

definition cached_attributes :: "string list" where
  "cached_attributes = [''titles'', ''unprefixed_titles'', ''cached'', ''data'', ''subpath'',
     ''languages'', ''authors'', ''_filehash'', ''_version'']"

definition setattr :: "string \<Rightarrow> pyval \<Rightarrow> song \<Rightarrow> song" where
  "setattr attribute v self = self\<lparr>attrs := (attrs self)(attribute \<mapsto> v)\<rparr>"

text \<open>\<^verbatim>\<open>obj[key]\<close> with a string key: only a dictionary has one.\<close>

definition subscript :: "pyval \<Rightarrow> string \<Rightarrow> pyerror + pyval" where
  "subscript obj k =
     (case obj of
        PDict kvs \<Rightarrow> (case map_of kvs k of Some v \<Rightarrow> Inr v | None \<Rightarrow> Inl KeyError)
      | _ \<Rightarrow> Inl TypeError)"

text \<open>The loop that copies the cached attributes onto the song.\<close>

fun restore :: "pyval \<Rightarrow> string list \<Rightarrow> song \<Rightarrow> pyerror + song" where
  "restore cached [] self = Inr self"
| "restore cached (attribute # rest) self =
     (case subscript cached attribute of
        Inl e \<Rightarrow> Inl e
      | Inr v \<Rightarrow> restore cached rest (setattr attribute v self))"

text \<open>
  How the \<^verbatim>\<open>try\<close> block ends: it returns from the constructor (\<open>Hit\<close>), it falls
  through because the hash or the version differs (\<open>Stale\<close>), or the bare
  \<^verbatim>\<open>except\<close> catches an exception (\<open>Raised\<close>). After \<open>Raised\<close> the song is taken as it
  was before the block: every attribute the copying loop may have set is assigned
  again by the parse hook or by the constructor before it is read.
\<close>

datatype lookup = Hit song | Stale | Raised

definition use_cached :: "pyval \<Rightarrow> song \<Rightarrow> lookup" where
  "use_cached cached self =
     (case subscript cached ''_filehash'' of
        Inl e \<Rightarrow> Raised
      | Inr h \<Rightarrow>
          if Some h = attrs self ''_filehash'' then
            (case subscript cached ''_version'' of
               Inl e \<Rightarrow> Raised
             | Inr v \<Rightarrow>
                 if v = PInt CACHE_VERSION then
                   (case restore cached cached_attributes self of
                      Inl e \<Rightarrow> Raised
                    | Inr self' \<Rightarrow> Hit self')
                 else Stale)
          else Stale)"

definition load_cached :: "string \<Rightarrow> string \<Rightarrow> song \<Rightarrow> world \<Rightarrow> lookup \<times> world" where
  "load_cached datadir subpath self w =
     (case cached_name datadir subpath w of
        (Inl e, w1) \<Rightarrow> (Raised, w1)
      | (Inr cname, w1) \<Rightarrow>
          (let w2 = w1\<lparr>trace := trace w1 @ [Loaded cname]\<rparr>
           in case read_file w2 cname of
                Inl e \<Rightarrow> (Raised, w2)
              | Inr (Bytes b) \<Rightarrow> (Raised, w2)
              | Inr (Pickle cached) \<Rightarrow> (use_cached cached self, w2)))"

text \<open>\<^verbatim>\<open>getattr\<close> of each cached attribute, into a dictionary in that order.\<close>

fun collect :: "(string \<rightharpoonup> pyval) \<Rightarrow> string list \<Rightarrow> pyerror + (string \<times> pyval) list" where
  "collect at [] = Inr []"
| "collect at (attribute # rest) =
     (case at attribute of
        None \<Rightarrow> Inl AttributeError
      | Some v \<Rightarrow>
          (case collect at rest of
             Inl e \<Rightarrow> Inl e
           | Inr kvs \<Rightarrow> Inr ((attribute, v) # kvs)))"

definition write_cache :: "song \<Rightarrow> world \<Rightarrow> (pyerror + unit) \<times> world" where
  "write_cache self w =
     (if s_datadir self \<noteq> [] then
        (case collect (attrs self) cached_attributes of
           Inl e \<Rightarrow> (Inl e, w)
         | Inr cached \<Rightarrow>
             (case attrs self ''subpath'' of
                None \<Rightarrow> (Inl AttributeError, w)
              | Some (PStr subpath) \<Rightarrow>
                  (case cached_name (s_datadir self) subpath w of
                     (Inl e, w1) \<Rightarrow> (Inl e, w1)
                   | (Inr cname, w1) \<Rightarrow>
                       (case write_file w1 cname (Pickle (PDict cached)) of
                          Inl e \<Rightarrow> (Inl e, w1)
                        | Inr w2 \<Rightarrow> (Inr (), w2\<lparr>trace := trace w2 @ [Stored cname]\<rparr>)))
              | Some _ \<Rightarrow> (Inl TypeError, w)))
      else (Inr (), w))"

text \<open>A dictionary with every key of the fixed attribute set.\<close>

definition has_all_keys :: "(string \<times> pyval) list \<Rightarrow> bool" where
  "has_all_keys kvs = list_all (\<lambda>attribute. map_of kvs attribute \<noteq> None) cached_attributes"

text \<open>
  The contents of a cache file on which the \<^verbatim>\<open>try\<close> block fails, for a song file of
  hash \<open>h\<close>: bytes that do not unpickle, a pickled value that is no dictionary, or a
  dictionary that lacks a key at the moment the constructor reads it (the hash; the
  version once the hash is right; any cached attribute once both are right).
\<close>

definition unusable :: "string \<Rightarrow> content \<Rightarrow> bool" where
  "unusable h c =
     (case c of
        Bytes b \<Rightarrow> True
      | Pickle (PDict kvs) \<Rightarrow>
          (case map_of kvs ''_filehash'' of
             None \<Rightarrow> True
           | Some sh \<Rightarrow>
               sh = PStr h \<and>
               (case map_of kvs ''_version'' of
                  None \<Rightarrow> True
                | Some sv \<Rightarrow> sv = PInt CACHE_VERSION \<and> \<not> has_all_keys kvs))
      | Pickle _ \<Rightarrow> True)"

text \<open>
  The contents of a cache file that hold no full snapshot: bytes that do not unpickle,
  a pickled value that is no dictionary, or a dictionary that lacks a key of the fixed
  attribute set.
\<close>

definition broken :: "content \<Rightarrow> bool" where
  "broken c =
     (case c of
        Bytes b \<Rightarrow> True
      | Pickle (PDict kvs) \<Rightarrow> \<not> has_all_keys kvs
      | Pickle _ \<Rightarrow> True)"

text \<open>The attributes \<^verbatim>\<open>_parse\<close> sets, and the post processing that follows it.\<close>

definition assign_parsed :: "parsed \<Rightarrow> song \<Rightarrow> song" where
  "assign_parsed p self =
     (let self = setattr ''titles'' (PList (map PStr (p_titles p))) self;
          self = setattr ''languages'' (PList (map PStr (p_languages p))) self;
          self = setattr ''authors'' (PList (map PStr (p_authors p))) self;
          self = setattr ''data'' (PDict (p_data p)) self
      in setattr ''cached'' (p_cached p) self)"

text \<open>The list comprehension over the titles: the first exception of
  \<^verbatim>\<open>unprefixed_title\<close> ends it.\<close>

fun unprefix_all :: "regex_engine \<Rightarrow> string list \<Rightarrow> string list \<Rightarrow> pyerror + pyval list" where
  "unprefix_all engine prefixes [] = Inr []"
| "unprefix_all engine prefixes (title # titles) =
     (case unprefixed_title engine title prefixes of
        Inl e \<Rightarrow> Inl e
      | Inr v \<Rightarrow>
          (case unprefix_all engine prefixes titles of
             Inl e \<Rightarrow> Inl e
           | Inr vs \<Rightarrow> Inr (v # vs)))"

definition post_process ::
  "env \<Rightarrow> string \<Rightarrow> config \<Rightarrow> parsed \<Rightarrow> song \<Rightarrow> pyerror + song" where
  "post_process env subpath config p self =
     (let self = setattr ''subpath'' (PStr subpath) self
      in case unprefix_all (re_engine env) (cfg_titleprefixwords config) (p_titles p) of
           Inl e \<Rightarrow> Inl e
         | Inr unprefixed \<Rightarrow>
             (let self = setattr ''unprefixed_titles'' (PList unprefixed) self;
                  self = setattr ''authors''
                           (process_listauthors env (p_authors p)
                              (case cfg_compiled_authwords config of
                                 None \<Rightarrow> [] | Some kw \<Rightarrow> kw)) self
              in Inr (setattr ''_version'' (PInt CACHE_VERSION) self)))"

text \<open>The constructor from the data extraction on: defaults, parse hook, post
  processing, cache.\<close>

definition parse_and_store ::
  "env \<Rightarrow> string \<Rightarrow> config \<Rightarrow> song \<Rightarrow> world \<Rightarrow> (pyerror + song) \<times> world" where
  "parse_and_store env subpath config self w =
     (let self = setattr ''titles'' (PList []) self;
          self = setattr ''data'' (PDict []) self;
          self = setattr ''cached'' PNone self;
          w = w\<lparr>trace := trace w @ [Parsed (s_fullpath self)]\<rparr>
      in case parse_hook env (files w) (s_fullpath self) (s_encoding self) config of
           Inl e \<Rightarrow> (Inl e, w)
         | Inr p \<Rightarrow>
             (case post_process env subpath config p (assign_parsed p self) of
                Inl e \<Rightarrow> (Inl e, w)
              | Inr self \<Rightarrow>
                  (case write_cache self w of
                     (Inl e, w') \<Rightarrow> (Inl e, w')
                   | (Inr u, w') \<Rightarrow> (Inr self, w'))))"

definition warning_text :: "string \<Rightarrow> string" where
  "warning_text path = ''Could not use cached version of '' @ path @ ''.''"

definition new_song :: "string \<Rightarrow> config \<Rightarrow> string option \<Rightarrow> song" where
  "new_song subpath config datadir =
     (let dd = (case datadir of None \<Rightarrow> [] | Some d \<Rightarrow> d)
      in \<lparr>s_datadir = dd, s_fullpath = path_join dd subpath,
          s_encoding = cfg_encoding config, s_config = config, attrs = Map.empty\<rparr>)"

definition Song_init ::
  "env \<Rightarrow> string \<Rightarrow> config \<Rightarrow> string option \<Rightarrow> world \<Rightarrow> (pyerror + song) \<times> world" where
  "Song_init env subpath config datadir w =
     (let self = new_song subpath config datadir
      in if s_datadir self \<noteq> [] then
           (case read_file w (s_fullpath self) of
              Inl e \<Rightarrow> (Inl e, w)
            | Inr bytes \<Rightarrow>
                (let self = setattr ''_filehash'' (PStr (md5_hexdigest env bytes)) self
                 in case cached_name (s_datadir self) subpath w of
                      (Inl e, w1) \<Rightarrow> (Inl e, w1)
                    | (Inr cname, w1) \<Rightarrow>
                        if exists w1 cname then
                          (case load_cached (s_datadir self) subpath self w1 of
                             (Hit self', w2) \<Rightarrow> (Inr self', w2)
                           | (Stale, w2) \<Rightarrow> parse_and_store env subpath config self w2
                           | (Raised, w2) \<Rightarrow>
                               parse_and_store env subpath config self
                                 (w2\<lparr>trace := trace w2 @ [Warned (warning_text (s_fullpath self))]\<rparr>))
                        else parse_and_store env subpath config self w1))
         else parse_and_store env subpath config self w)"

subsection \<open>Example collaborators and worlds\<close>

text \<open>
  Stand-ins for the collaborators, for the examples: a digest that tags the bytes, a
  parse hook that takes the whole file as the one title, an author normaliser that
  keeps the names, and a regular-expression library that compiles no pattern of a
  prefix with a metacharacter.
\<close>

definition ex_env :: env where
  "ex_env = \<lparr>md5_hexdigest = (\<lambda>c. case c of Bytes b \<Rightarrow> ''md5:'' @ b | Pickle v \<Rightarrow> ''md5:pickle''),
     parse_hook = (\<lambda>fs path enc cfg.
        case fs (''/w/'' @ path) of
          Some (Bytes b) \<Rightarrow>
            Inr \<lparr>p_titles = [b], p_languages = [''english''], p_authors = [''Anonymous''],
                 p_data = [], p_cached = PNone\<rparr>
        | _ \<Rightarrow> Inl (HookError ''unreadable'')),
     process_listauthors = (\<lambda>authors kw. PList (map PStr authors)),
     re_engine = (\<lambda>prefix title. Inl ReError)\<rparr>"

definition ex_config :: config where
  "ex_config = \<lparr>cfg_encoding = ''utf-8'', cfg_titleprefixwords = [''The''],
     cfg_compiled_authwords = None, cfg_datadir = [''d'']\<rparr>"

text \<open>The snapshot of the song \<^verbatim>\<open>d/a.sg\<close> of the example world, and one of an older
  version.\<close>

definition ex_snapshot :: "int \<Rightarrow> (string \<times> pyval) list" where
  "ex_snapshot version =
     [(''titles'', PList [PStr ''The Song'']), (''unprefixed_titles'', PList [PStr ''Song'']),
      (''cached'', PNone), (''data'', PDict []), (''subpath'', PStr ''a.sg''),
      (''languages'', PList [PStr ''english'']), (''authors'', PList [PStr ''Anonymous'']),
      (''_filehash'', PStr ''md5:The Song''), (''_version'', PInt version)]"

text \<open>The example world with a cache file for that song.\<close>

definition ex_cached :: "content \<Rightarrow> world" where
  "ex_cached c = ex_world\<lparr>files := (files ex_world)(''/w/d/.cache/a.sg'' \<mapsto> c),
                           dirs := insert ''/w/d/.cache'' (dirs ex_world)\<rparr>"

subsection \<open>render\<close>

text \<open>
  \<^verbatim>\<open>render\<close> looks the attribute \<^verbatim>\<open>render_FORMAT\<close> up on the instance. The attributes
  of that name are the render methods of the subclass, given here as a table from
  attribute name to method; a method takes the output and the further arguments and
  may raise.
\<close>

definition render ::
  "(string \<rightharpoonup> ('a \<Rightarrow> pyerror + 'r)) \<Rightarrow> string \<Rightarrow> 'a \<Rightarrow> pyerror + 'r" where
  "render methods output_format args =
     (let name = ''render_'' @ output_format
      in case methods name of
           Some m \<Rightarrow> m args
         | None \<Rightarrow> Inl NotImplementedError)"

subsection \<open>search_file\<close>

fun try_extensions :: "world \<Rightarrow> string \<Rightarrow> string \<Rightarrow> string list \<Rightarrow> string option" where
  "try_extensions w directory filename [] = None"
| "try_extensions w directory filename (extension # extensions) =
     (let fullpath = path_join directory (filename @ extension)
      in if isfile w fullpath then Some (abspath w fullpath)
         else try_extensions w directory filename extensions)"

fun search_dirs :: "world \<Rightarrow> string \<Rightarrow> string list \<Rightarrow> string list \<Rightarrow> string option" where
  "search_dirs w filename extensions [] = None"
| "search_dirs w filename extensions (directory # directories) =
     (case try_extensions w directory filename extensions of
        Some found \<Rightarrow> Some found
      | None \<Rightarrow> search_dirs w filename extensions directories)"

definition search_file ::
  "world \<Rightarrow> song \<Rightarrow> string \<Rightarrow> string list option \<Rightarrow> string list option \<Rightarrow> string option" where
  "search_file w self filename extensions directories =
     (let extensions = (case extensions of None \<Rightarrow> [[]] | Some es \<Rightarrow> es);
          directories = (case directories of None \<Rightarrow> cfg_datadir (s_config self) | Some ds \<Rightarrow> ds);
          songdir = dirname (s_fullpath self)
      in search_dirs w filename extensions (songdir # directories))"

text \<open>The candidate paths in the order the two loops visit them.\<close>

definition candidates :: "string \<Rightarrow> string list \<Rightarrow> string list \<Rightarrow> string list" where
  "candidates filename extensions directories =
     concat (map (\<lambda>directory. map (\<lambda>extension. path_join directory (filename @ extension))
                                  extensions) directories)"

section \<open>DataSubpath: the invariant\<close>

lemma outside_inv_init: "outside_inv (DataSubpath_init datadir subpath)"
  by (simp add: outside_inv_def DataSubpath_init_def)

lemma outside_inv_clone: "outside_inv (clone self)"
  by (simp add: clone_def outside_inv_init)

lemma isabs_path_join: "isabs (path_join a b) = (isabs b \<or> isabs a)"
  by (cases a; cases b) (auto simp: isabs_def path_join_def)

lemma outside_inv_join:
  "outside_inv self \<Longrightarrow> \<not> isabs path \<Longrightarrow> outside_inv (DataSubpath_join self path)"
  by (auto simp: outside_inv_def DataSubpath_join_def isabs_path_join split: if_splits)

text \<open>
  C4. The claim: in every reachable DataSubpath state, across construction and every
  later join, an absolute subpath goes with an empty datadir. The constructor (and
  \<^verbatim>\<open>clone\<close>, which goes through it) sets the invariant up, and a join with a relative
  segment keeps it (the lemmas above). \<^verbatim>\<open>join\<close> does not repeat the
  constructor's test: after
  \<^verbatim>\<open>DataSubpath("data", "songs").join("/etc/song.sg")\<close> the subpath is the absolute
  \<^verbatim>\<open>/etc/song.sg\<close> and the datadir is still \<^verbatim>\<open>data\<close>. The theorem evaluates the code
  at that input.
\<close>

theorem C4_join_breaks_invariant:
  "reachable (DataSubpath_join (DataSubpath_init ''data'' ''songs'') ''/etc/song.sg'')
   \<and> isabs (ds_subpath (DataSubpath_join (DataSubpath_init ''data'' ''songs'') ''/etc/song.sg''))
   \<and> ds_datadir (DataSubpath_join (DataSubpath_init ''data'' ''songs'') ''/etc/song.sg'') = ''data''
   \<and> \<not> outside_inv (DataSubpath_join (DataSubpath_init ''data'' ''songs'') ''/etc/song.sg'')"
proof -
  have "reachable (DataSubpath_join (DataSubpath_init ''data'' ''songs'') ''/etc/song.sg'')"
    by (rule r_join) (rule r_init)
  then show ?thesis
    by (simp add: DataSubpath_join_def DataSubpath_init_def isabs_def path_join_def
        outside_inv_def)
qed

section \<open>render: dispatch on the format name\<close>

text \<open>
  C8. For every output format name, \<^verbatim>\<open>render\<close> calls the method named
  \<^verbatim>\<open>render_FORMAT\<close> with the arguments it was given when the instance has one, and
  raises \<^verbatim>\<open>NotImplementedError\<close> when the instance has none.
\<close>

theorem C8_render_dispatch:
  "(methods (''render_'' @ output_format) = Some m
      \<longrightarrow> render methods output_format args = m args)
   \<and> (methods (''render_'' @ output_format) = None
        \<longrightarrow> render methods output_format args = Inl NotImplementedError)"
  by (simp add: render_def)

theorem C8_render_dispatch_witness:
  "render [''render_latex'' \<mapsto> (\<lambda>output. Inr (''tex:'' @ output))] ''latex'' ''out''
     = (Inr ''tex:out'' :: pyerror + string)
   \<and> render [''render_latex'' \<mapsto> (\<lambda>output. Inr (''tex:'' @ output))] ''html'' ''out''
     = (Inl NotImplementedError :: pyerror + string)"
  using C8_render_dispatch [of "[''render_latex'' \<mapsto> (\<lambda>output. Inr (''tex:'' @ output))]"
          "''latex''" "\<lambda>output. Inr (''tex:'' @ output)" "''out''"]
        C8_render_dispatch [of
          "[''render_latex'' \<mapsto> (\<lambda>output. (Inr (''tex:'' @ output) :: pyerror + string))]"
          "''html''" undefined "''out''"]
  by simp

section \<open>search_file: the first existing candidate\<close>

lemma try_extensions_find:
  "try_extensions w directory filename extensions =
     map_option (abspath w)
       (find (isfile w) (map (\<lambda>extension. path_join directory (filename @ extension)) extensions))"
  by (induction extensions) (simp_all add: Let_def)

lemma find_append:
  "find P (xs @ ys) = (case find P xs of Some x \<Rightarrow> Some x | None \<Rightarrow> find P ys)"
  by (induction xs) simp_all

lemma search_dirs_find:
  "search_dirs w filename extensions directories =
     map_option (abspath w) (find (isfile w) (candidates filename extensions directories))"
  by (induction directories)
     (auto simp: candidates_def try_extensions_find find_append split: option.splits)

text \<open>
  C6. For every file name, extension list and directory list, \<^verbatim>\<open>search_file\<close> visits
  the directory of the song first and then the given directories in order, tries the
  extensions in order within each directory, and returns the absolute path of the first
  candidate that is an existing file, or \<^verbatim>\<open>None\<close> when no candidate exists. The
  arguments left out default to the empty extension and to the configured datadirs.
\<close>

theorem C6_search_file_first_match:
  "search_file w self filename extensions directories =
     map_option (abspath w)
       (find (isfile w)
          (candidates filename (case extensions of None \<Rightarrow> [[]] | Some es \<Rightarrow> es)
             (dirname (s_fullpath self)
                # (case directories of None \<Rightarrow> cfg_datadir (s_config self) | Some ds \<Rightarrow> ds))))"
  by (simp add: search_file_def search_dirs_find Let_def)

text \<open>The example of the directories \<^verbatim>\<open>e\<close> and \<^verbatim>\<open>d\<close>: the song's own directory
  \<^verbatim>\<open>f\<close> and \<^verbatim>\<open>e\<close> lack the file, and \<^verbatim>\<open>d\<close> has it with the second extension.\<close>

lemma search_file_example:
  "search_file ex_world (new_song ''x.sg'' ex_config (Some ''f'')) ''a''
     (Some [[], ''.sg'']) (Some [''e'', ''d'']) = Some ''/w/d/a.sg''"
  by code_simp

section \<open>unprefixed_title\<close>

lemma star_splits_first:
  "star_splits c s =
     (takeWhile c s, dropWhile c s)
       # map (\<lambda>k. (take k s, drop k s)) (rev [0 ..< length (takeWhile c s)])"
  by (simp add: star_splits_def takeWhile_eq_take [symmetric] dropWhile_eq_drop [symmetric])

lemma takeWhile_all: "x \<notin> set s \<Longrightarrow> takeWhile (\<lambda>c. c \<noteq> x) s = s"
  by (induction s) auto

text \<open>On a title of one line the match succeeds as soon as the prefix stands at the
  start and ends at a word boundary, and group 2 is what follows the white space.\<close>

lemma match_literal_one_line:
  assumes "newline \<notin> set title"
  shows "match_literal p title =
           (if whole_word_prefix p title then Some (dropWhile is_space (drop (length p) title))
            else None)"
proof -
  let ?r = "dropWhile is_space (drop (length p) title)"
  have "set ?r \<subseteq> set title"
    by (meson set_dropWhileD set_drop_subset subsetD subsetI)
  then have nl: "newline \<notin> set ?r" using assms by blast
  have tw: "takeWhile (\<lambda>c. c \<noteq> newline) ?r = ?r" using nl by (rule takeWhile_all)
  then have dw: "dropWhile (\<lambda>c. c \<noteq> newline) ?r = []"
    by (metis append_self_conv takeWhile_dropWhile_id)
  show ?thesis
    unfolding match_literal_def whole_word_prefix_def
    by (simp add: star_splits_first [of is_space] star_splits_first [of _ ?r] tw dw at_end_def)
qed

text \<open>
  Where the code does what the docstring says: on a title with no line feed and
  literal prefixes, whatever the regular-expression library is, the first prefix in
  list order that stands at the start of the title and ends at a word boundary is
  removed together with the white space that follows, and the remainder is returned;
  with no such prefix the title is returned unchanged.
\<close>

lemma unprefixed_title_one_line:
  assumes "newline \<notin> set title" and "list_all literal prefixes"
  shows "unprefixed_title engine title prefixes =
           Inr (PStr (case find (\<lambda>p. whole_word_prefix p title) prefixes of
                        None \<Rightarrow> title
                      | Some p \<Rightarrow> dropWhile is_space (drop (length p) title)))"
  using assms(2)
  by (induction prefixes) (simp_all add: re_match_def match_literal_one_line [OF assms(1)])

lemma unprefixed_title_examples:
  "unprefixed_title engine ''The Song'' [''The''] = Inr (PStr ''Song'')"
  "unprefixed_title engine ''Song'' [''The''] = Inr (PStr ''Song'')"
proof -
  have l: "list_all literal [''The'']" by (simp add: literal_def metachars_def)
  have n1: "newline \<notin> set ''The Song''" and n2: "newline \<notin> set ''Song''"
    by (simp_all add: newline_def)
  have f1: "find (\<lambda>p. whole_word_prefix p ''The Song'') [''The''] = Some ''The''"
    and f2: "find (\<lambda>p. whole_word_prefix p ''Song'') [''The''] = None"
    by (simp_all add: whole_word_prefix_def at_boundary_def is_word_def)
  show "unprefixed_title engine ''The Song'' [''The''] = Inr (PStr ''Song'')"
    unfolding unprefixed_title_one_line [OF n1 l] f1 by (simp add: is_space_def)
  show "unprefixed_title engine ''Song'' [''The''] = Inr (PStr ''Song'')"
    unfolding unprefixed_title_one_line [OF n2 l] f2 by simp
qed

text \<open>
  C7. The claim: for every title and ordered prefix list, the first prefix in list
  order that matches at the start of the title as a whole word is removed together with
  the white space that follows and the remainder is returned, and without a match the
  title is returned unchanged. The docstring of the function says the same, and on
  titles of one line the code does it (the lemmas above, with the two examples of the
  claim). On a title that holds a line feed the code does not: the pattern is compiled
  without \<^verbatim>\<open>re.DOTALL\<close>, so the dot stops at the line feed. In \<^verbatim>\<open>"The a\nb"\<close> the
  prefix \<^verbatim>\<open>The\<close> stands at the start as a whole word and is in the list, and the
  title comes back unchanged where the remainder is \<^verbatim>\<open>"a\nb"\<close>; from
  \<^verbatim>\<open>"The Song\n"\<close> the result is \<^verbatim>\<open>"Song"\<close>, without the line feed that ends the
  remainder. The theorem evaluates the code at these inputs, for every
  regular-expression library.
\<close>

theorem C7_line_feed_title:
  "whole_word_prefix ''The'' (''The a'' @ [newline] @ ''b'')
   \<and> unprefixed_title engine (''The a'' @ [newline] @ ''b'') [''The'']
       = Inr (PStr (''The a'' @ [newline] @ ''b''))
   \<and> ''The a'' @ [newline] @ ''b'' \<noteq> ''a'' @ [newline] @ ''b''
   \<and> unprefixed_title engine (''The Song'' @ [newline]) [''The''] = Inr (PStr ''Song'')
   \<and> ''Song'' \<noteq> ''Song'' @ [newline]"
  by (simp add: whole_word_prefix_def at_boundary_def is_word_def is_space_def re_match_def
      match_literal_def literal_def metachars_def star_splits_def at_end_def newline_def)

text \<open>A prefix with a metacharacter goes to the regular-expression library, and an
  exception of the library is the exception of \<^verbatim>\<open>unprefixed_title\<close>.\<close>

lemma unprefixed_title_re_error:
  "engine ''('' title = Inl e \<Longrightarrow> unprefixed_title engine title (''('' # prefixes) = Inl e"
  by (simp add: re_match_def literal_def metachars_def)

section \<open>cached_name: the cache location\<close>

lemma abspath_cwd: "cwd w' = cwd w \<Longrightarrow> abspath w' p = abspath w p"
  by (simp add: abspath_def)

lemma makedirs_Inr:
  assumes "makedirs w name = Inr w'"
  shows "w' = w\<lparr>dirs := dirs w \<union> set (abspath w name # ancestors (abspath w name))\<rparr>"
  using assms by (simp add: makedirs_def Let_def split: if_splits)

lemma makedirs_existing:
  "isdir w name \<Longrightarrow> makedirs w name = Inl EEXIST"
  by (auto simp: makedirs_def isdir_def Let_def)

lemma cached_name_Inr:
  assumes "cached_name datadir filename w = (Inr p, w')"
  shows "p = abspath w (path_join (path_join datadir ''.cache'') filename)"
    and "isdir w' (dirname p)"
    and "files w' = files w" and "cwd w' = cwd w" and "trace w' = trace w"
    and "readonly w' = readonly w" and "dirs w \<subseteq> dirs w'"
    and "w' = w \<or> w' = w\<lparr>dirs := dirs w \<union> set (abspath w (dirname p) # ancestors (abspath w (dirname p)))\<rparr>"
proof -
  let ?f = "abspath w (path_join (path_join datadir ''.cache'') filename)"
  show p: "p = ?f"
    using assms by (auto simp: cached_name_def Let_def split: sum.splits if_splits)
  consider (made) w1 where "makedirs w (dirname ?f) = Inr w1" "w' = w1"
    | (there) "isdir w (dirname ?f)" "w' = w"
    using assms by (auto simp: cached_name_def Let_def split: sum.splits if_splits)
  then have "isdir w' (dirname p) \<and> files w' = files w \<and> cwd w' = cwd w \<and> trace w' = trace w
      \<and> readonly w' = readonly w \<and> dirs w \<subseteq> dirs w'
      \<and> (w' = w \<or> w' = w\<lparr>dirs := dirs w \<union> set (abspath w (dirname p) # ancestors (abspath w (dirname p)))\<rparr>)"
  proof cases
    case made
    from makedirs_Inr [OF made(1)] made(2) p show ?thesis
      by (auto simp: isdir_def abspath_def)
  next
    case there
    with p show ?thesis by simp
  qed
  then show "isdir w' (dirname p)" "files w' = files w" "cwd w' = cwd w" "trace w' = trace w"
    "readonly w' = readonly w" "dirs w \<subseteq> dirs w'"
    "w' = w \<or> w' = w\<lparr>dirs := dirs w \<union> set (abspath w (dirname p) # ancestors (abspath w (dirname p)))\<rparr>"
    by simp_all
qed

lemma cached_name_Inl: "cached_name datadir filename w = (Inl e, w') \<Longrightarrow> w' = w"
  by (auto simp: cached_name_def Let_def split: sum.splits if_splits)

lemma cached_name_existing:
  assumes "isdir w (dirname (abspath w (path_join (path_join datadir ''.cache'') filename)))"
  shows "cached_name datadir filename w
           = (Inr (abspath w (path_join (path_join datadir ''.cache'') filename)), w)"
  using assms makedirs_existing [OF assms] by (simp add: cached_name_def Let_def)

lemma cached_name_again:
  assumes "cached_name datadir filename w = (Inr p, w1)"
    and "cwd w2 = cwd w1" and "dirs w1 \<subseteq> dirs w2"
  shows "cached_name datadir filename w2 = (Inr p, w2)"
proof -
  note a = cached_name_Inr [OF assms(1)]
  have eq: "abspath w2 x = abspath w x" for x
    using a(4) assms(2) by (simp add: abspath_def)
  have "isdir w2 (dirname p)" using a(2) assms(2,3) by (auto simp: isdir_def abspath_def)
  then show ?thesis using cached_name_existing [of w2 datadir filename] a(1) eq by simp
qed

text \<open>
  C5. For every base directory and file name, \<^verbatim>\<open>cached_name\<close> returns the absolute
  path of the file under the \<^verbatim>\<open>.cache\<close> directory of the base directory, and when it
  returns, the directory of that path exists: \<^verbatim>\<open>makedirs\<close> has created it with every
  missing ancestor, or it failed with \<^verbatim>\<open>EEXIST\<close> on a path that is a directory, which
  is taken as success. Every other failure of \<^verbatim>\<open>makedirs\<close> (another error number, or
  \<^verbatim>\<open>EEXIST\<close> on a path that is no directory) reaches the caller with its error number.
\<close>

theorem C5_cached_name:
  fixes datadir filename :: string and w :: world
  defines "fullpath \<equiv> abspath w (path_join (path_join datadir ''.cache'') filename)"
  defines "directory \<equiv> dirname fullpath"
  shows "(\<forall>p w'. cached_name datadir filename w = (Inr p, w')
            \<longrightarrow> p = fullpath \<and> isdir w' directory \<and> files w' = files w)
       \<and> (\<forall>w'. makedirs w directory = Inr w'
            \<longrightarrow> cached_name datadir filename w = (Inr fullpath, w')
                \<and> set (abspath w directory # ancestors (abspath w directory)) \<subseteq> dirs w')
       \<and> (makedirs w directory = Inl EEXIST \<and> isdir w directory
            \<longrightarrow> cached_name datadir filename w = (Inr fullpath, w))
       \<and> (\<forall>e. makedirs w directory = Inl e \<and> \<not> (e = EEXIST \<and> isdir w directory)
            \<longrightarrow> cached_name datadir filename w = (Inl (OSError e), w))
       \<and> (\<not> isabs filename
            \<longrightarrow> fullpath = abspath w ((if datadir = [] \<or> last datadir = CHR ''/'' then datadir
                                        else datadir @ ''/'') @ ''.cache/'' @ filename))"
proof -
  have 1: "\<forall>p w'. cached_name datadir filename w = (Inr p, w')
            \<longrightarrow> p = fullpath \<and> isdir w' directory \<and> files w' = files w"
    using cached_name_Inr(1,2,3) unfolding fullpath_def directory_def by blast
  have 2: "\<forall>w'. makedirs w directory = Inr w'
            \<longrightarrow> cached_name datadir filename w = (Inr fullpath, w')
                \<and> set (abspath w directory # ancestors (abspath w directory)) \<subseteq> dirs w'"
  proof (intro allI impI)
    fix w' assume m: "makedirs w directory = Inr w'"
    from makedirs_Inr [OF m] have "set (abspath w directory # ancestors (abspath w directory)) \<subseteq> dirs w'"
      by auto
    moreover have "cached_name datadir filename w = (Inr fullpath, w')"
      using m unfolding fullpath_def directory_def by (simp add: cached_name_def Let_def)
    ultimately show "cached_name datadir filename w = (Inr fullpath, w')
                \<and> set (abspath w directory # ancestors (abspath w directory)) \<subseteq> dirs w'" by simp
  qed
  have 3: "makedirs w directory = Inl EEXIST \<and> isdir w directory
            \<longrightarrow> cached_name datadir filename w = (Inr fullpath, w)"
    unfolding fullpath_def directory_def by (simp add: cached_name_def Let_def)
  have 4: "\<forall>e. makedirs w directory = Inl e \<and> \<not> (e = EEXIST \<and> isdir w directory)
            \<longrightarrow> cached_name datadir filename w = (Inl (OSError e), w)"
    unfolding fullpath_def directory_def by (auto simp: cached_name_def Let_def)
  have 5: "\<not> isabs filename
            \<longrightarrow> fullpath = abspath w ((if datadir = [] \<or> last datadir = CHR ''/'' then datadir
                                        else datadir @ ''/'') @ ''.cache/'' @ filename)"
    unfolding fullpath_def by (simp add: path_join_def isabs_def)
  from 1 2 3 4 5 show ?thesis by blast
qed

text \<open>The equations that evaluate the path and file-system functions on the example
  world.\<close>

lemmas ev = cached_name_def Let_def abspath_def normpath_def path_join_def isabs_def
  initial_slashes_def dirname_def rstrip_sep_def makedirs_def isdir_def ex_world_def ancestors.simps

theorem C5_cached_name_witness:
  "fst (cached_name ''d'' ''sub/a.sg'' ex_world) = Inr ''/w/d/.cache/sub/a.sg''
   \<and> isdir (snd (cached_name ''d'' ''sub/a.sg'' ex_world)) ''/w/d/.cache/sub''
   \<and> ''/w/d/.cache'' \<in> dirs (snd (cached_name ''d'' ''sub/a.sg'' ex_world))
   \<and> cached_name ''e'' ''a.sg'' ex_world = (Inr ''/w/e/.cache/a.sg'', ex_world)
   \<and> cached_name ''f'' ''a.sg'' ex_world = (Inl (OSError EEXIST), ex_world)
   \<and> cached_name ''d'' ''a.sg'' (ex_world\<lparr>readonly := True\<rparr>)
       = (Inl (OSError EROFS), ex_world\<lparr>readonly := True\<rparr>)"
proof -
  let ?ro = "ex_world\<lparr>readonly := True\<rparr>"
  let ?made = "ex_world\<lparr>dirs := dirs ex_world
                 \<union> set [''/w/d/.cache/sub'', ''/w/d/.cache'', ''/w/d'', ''/w'', ''/'']\<rparr>"
  have n: "abspath ex_world (path_join (path_join ''d'' ''.cache'') ''sub/a.sg'') = ''/w/d/.cache/sub/a.sg''"
     "abspath ex_world (path_join (path_join ''e'' ''.cache'') ''a.sg'') = ''/w/e/.cache/a.sg''"
     "abspath ex_world (path_join (path_join ''f'' ''.cache'') ''a.sg'') = ''/w/f/.cache/a.sg''"
     "abspath ?ro (path_join (path_join ''d'' ''.cache'') ''a.sg'') = ''/w/d/.cache/a.sg''"
    by (simp_all add: ev)
  have m1: "makedirs ex_world (dirname ''/w/d/.cache/sub/a.sg'') = Inr ?made"
    by (simp add: ev)
  have m2: "makedirs ex_world (dirname ''/w/e/.cache/a.sg'') = Inl EEXIST
            \<and> isdir ex_world (dirname ''/w/e/.cache/a.sg'')"
    by (simp add: ev)
  have m3: "makedirs ex_world (dirname ''/w/f/.cache/a.sg'') = Inl EEXIST
            \<and> \<not> (EEXIST = EEXIST \<and> isdir ex_world (dirname ''/w/f/.cache/a.sg''))"
    by (simp add: ev)
  have m4: "makedirs ?ro (dirname ''/w/d/.cache/a.sg'') = Inl EROFS
            \<and> \<not> (EROFS = EEXIST \<and> isdir ?ro (dirname ''/w/d/.cache/a.sg''))"
    by (simp add: ev)
  have r1: "cached_name ''d'' ''sub/a.sg'' ex_world = (Inr ''/w/d/.cache/sub/a.sg'', ?made)"
    using C5_cached_name [of "''d''" "''sub/a.sg''" ex_world, unfolded n] m1 by blast
  have r2: "cached_name ''e'' ''a.sg'' ex_world = (Inr ''/w/e/.cache/a.sg'', ex_world)"
    using C5_cached_name [of "''e''" "''a.sg''" ex_world, unfolded n] m2 by blast
  have r3: "cached_name ''f'' ''a.sg'' ex_world = (Inl (OSError EEXIST), ex_world)"
    using C5_cached_name [of "''f''" "''a.sg''" ex_world, unfolded n] m3 by blast
  have r4: "cached_name ''d'' ''a.sg'' ?ro = (Inl (OSError EROFS), ?ro)"
    using C5_cached_name [of "''d''" "''a.sg''" ?ro, unfolded n] m4 by blast
  have d: "isdir ?made ''/w/d/.cache/sub''"
    by (simp add: ev)
  show ?thesis
    unfolding r1 r2 r3 r4 using d by simp
qed

section \<open>Song: the cache pipeline\<close>

lemma setattr_simps [simp]:
  "s_datadir (setattr a v self) = s_datadir self"
  "s_fullpath (setattr a v self) = s_fullpath self"
  "s_encoding (setattr a v self) = s_encoding self"
  "s_config (setattr a v self) = s_config self"
  "attrs (setattr a v self) = (attrs self)(a \<mapsto> v)"
  by (simp_all add: setattr_def)

lemma new_song_simps [simp]:
  "s_datadir (new_song subpath config datadir) = (case datadir of None \<Rightarrow> [] | Some d \<Rightarrow> d)"
  "s_fullpath (new_song subpath config datadir)
     = path_join (case datadir of None \<Rightarrow> [] | Some d \<Rightarrow> d) subpath"
  "s_encoding (new_song subpath config datadir) = cfg_encoding config"
  "s_config (new_song subpath config datadir) = config"
  "attrs (new_song subpath config datadir) = Map.empty"
  by (simp_all add: new_song_def Let_def)

lemma assign_parsed_simps [simp]:
  "s_datadir (assign_parsed p self) = s_datadir self"
  "s_fullpath (assign_parsed p self) = s_fullpath self"
  "s_encoding (assign_parsed p self) = s_encoding self"
  "s_config (assign_parsed p self) = s_config self"
  by (simp_all add: assign_parsed_def)

lemma post_process_Inr:
  assumes "post_process env subpath config p self = Inr s"
  shows "s_datadir s = s_datadir self" and "s_fullpath s = s_fullpath self"
    and "s_encoding s = s_encoding self" and "s_config s = s_config self"
    and "attrs s ''subpath'' = Some (PStr subpath)"
    and "attrs s ''_version'' = Some (PInt CACHE_VERSION)"
    and "attrs s ''_filehash'' = attrs self ''_filehash''"
  using assms by (auto simp: post_process_def Let_def split: sum.splits)

lemma path_join_empty [simp]: "path_join [] b = b"
  by (simp add: path_join_def)

lemma write_cache_no_datadir: "s_datadir self = [] \<Longrightarrow> write_cache self w = (Inr (), w)"
  by (simp add: write_cache_def)

lemma parse_and_store_unfold:
  "parse_and_store env subpath config self w =
     (case parse_hook env (files w) (s_fullpath self) (s_encoding self) config of
        Inl e \<Rightarrow> (Inl e, w\<lparr>trace := trace w @ [Parsed (s_fullpath self)]\<rparr>)
      | Inr p \<Rightarrow>
          (case post_process env subpath config p (assign_parsed p
                  (setattr ''cached'' PNone (setattr ''data'' (PDict [])
                     (setattr ''titles'' (PList []) self)))) of
             Inl e \<Rightarrow> (Inl e, w\<lparr>trace := trace w @ [Parsed (s_fullpath self)]\<rparr>)
           | Inr s \<Rightarrow>
               (case write_cache s (w\<lparr>trace := trace w @ [Parsed (s_fullpath self)]\<rparr>) of
                  (Inl e, w') \<Rightarrow> (Inl e, w')
                | (Inr u, w') \<Rightarrow> (Inr s, w'))))"
  by (simp add: parse_and_store_def Let_def split: sum.splits)

lemma parse_and_store_no_datadir:
  assumes "s_datadir self = []"
  shows "snd (parse_and_store env subpath config self w)
           = w\<lparr>trace := trace w @ [Parsed (s_fullpath self)]\<rparr>"
proof (cases "parse_hook env (files w) (s_fullpath self) (s_encoding self) config")
  case (Inl e)
  then show ?thesis by (simp add: parse_and_store_unfold)
next
  case (Inr p)
  let ?a = "assign_parsed p (setattr ''cached'' PNone (setattr ''data'' (PDict [])
              (setattr ''titles'' (PList []) self)))"
  show ?thesis
  proof (cases "post_process env subpath config p ?a")
    case (Inl e)
    with Inr show ?thesis by (simp add: parse_and_store_unfold)
  next
    case s: (Inr s)
    from post_process_Inr(1) [OF s] assms have "s_datadir s = []" by simp
    with Inr s show ?thesis by (simp add: parse_and_store_unfold write_cache_no_datadir)
  qed
qed

lemma Song_init_no_datadir:
  assumes "datadir = None \<or> datadir = Some []"
  shows "Song_init env subpath config datadir w
           = parse_and_store env subpath config (new_song subpath config datadir) w"
  using assms by (auto simp: Song_init_def)

text \<open>
  C9. A song constructed with no base directory, or with the empty one, is never
  cached: whether the construction succeeds or raises, it changes nothing in the world
  but for one call of the parse hook. No cache file is opened, no directory is created
  and no file is written.
\<close>

theorem C9_no_datadir_no_cache:
  assumes "datadir = None \<or> datadir = Some []"
  shows "snd (Song_init env subpath config datadir w) = w\<lparr>trace := trace w @ [Parsed subpath]\<rparr>"
proof -
  have d: "s_datadir (new_song subpath config datadir) = []"
    and f: "s_fullpath (new_song subpath config datadir) = subpath"
    using assms by auto
  show ?thesis
    unfolding Song_init_no_datadir [OF assms] parse_and_store_no_datadir [OF d] f ..
qed

theorem C9_no_datadir_witness:
  "snd (Song_init ex_env ''d/a.sg'' ex_config None ex_world)
     = ex_world\<lparr>trace := trace ex_world @ [Parsed ''d/a.sg'']\<rparr>
   \<and> snd (Song_init ex_env ''d/a.sg'' ex_config (Some []) ex_world)
     = ex_world\<lparr>trace := trace ex_world @ [Parsed ''d/a.sg'']\<rparr>"
  using C9_no_datadir_no_cache [of None ex_env "''d/a.sg''" ex_config ex_world]
    C9_no_datadir_no_cache [of "Some []" ex_env "''d/a.sg''" ex_config ex_world]
  by simp

text \<open>An exception of the post processing ends the construction after the parse hook
  has run: here the prefix \<^verbatim>\<open>(\<close>, whose pattern does not compile.\<close>

lemma Song_init_re_error_example:
  "Song_init ex_env ''d/a.sg'' (ex_config\<lparr>cfg_titleprefixwords := [''('']\<rparr>) None ex_world
     = (Inl ReError, ex_world\<lparr>trace := trace ex_world @ [Parsed ''d/a.sg'']\<rparr>)"
proof -
  have "case fst (Song_init ex_env ''d/a.sg'' (ex_config\<lparr>cfg_titleprefixwords := [''('']\<rparr>)
                    None ex_world) of Inl e \<Rightarrow> e = ReError | Inr s \<Rightarrow> False"
    by code_simp
  then have "fst (Song_init ex_env ''d/a.sg'' (ex_config\<lparr>cfg_titleprefixwords := [''('']\<rparr>) None
               ex_world) = Inl ReError"
    by (simp split: sum.splits)
  moreover have "snd (Song_init ex_env ''d/a.sg'' (ex_config\<lparr>cfg_titleprefixwords := [''('']\<rparr>) None
                   ex_world) = ex_world\<lparr>trace := trace ex_world @ [Parsed ''d/a.sg'']\<rparr>"
    by (simp add: Song_init_no_datadir parse_and_store_no_datadir)
  ultimately show ?thesis by (simp add: prod_eq_iff)
qed

lemma abspath_trace [simp]: "abspath (w\<lparr>trace := t\<rparr>) p = abspath w p"
  by (simp add: abspath_def)

lemma isdir_trace [simp]: "isdir (w\<lparr>trace := t\<rparr>) p = isdir w p"
  by (simp add: isdir_def)

lemma read_file_trace [simp]: "read_file (w\<lparr>trace := t\<rparr>) p = read_file w p"
  by (simp add: read_file_def)

lemma load_cached_eval:
  assumes "cached_name d subpath w1 = (Inr cname, w1)"
  shows "load_cached d subpath self w1 =
           ((case files w1 (abspath w1 cname) of
               Some (Pickle v) \<Rightarrow> use_cached v self
             | _ \<Rightarrow> Raised),
            w1\<lparr>trace := trace w1 @ [Loaded cname]\<rparr>)"
  using assms
  by (simp add: load_cached_def read_file_def Let_def split: option.splits content.splits)

lemma Song_init_cases:
  assumes d: "d \<noteq> []"
    and rd: "read_file w (path_join d subpath) = Inr bytes"
    and cn: "cached_name d subpath w = (Inr cname, w1)"
  shows "Song_init env subpath config (Some d) w =
     (let self = setattr ''_filehash'' (PStr (md5_hexdigest env bytes))
                   (new_song subpath config (Some d));
          warned = w1\<lparr>trace := trace w1
                     @ [Loaded cname, Warned (warning_text (path_join d subpath))]\<rparr>
      in case files w1 (abspath w1 cname) of
           None \<Rightarrow> if isdir w1 cname then parse_and_store env subpath config self warned
                    else parse_and_store env subpath config self w1
         | Some (Bytes b) \<Rightarrow> parse_and_store env subpath config self warned
         | Some (Pickle v) \<Rightarrow>
             (case use_cached v self of
                Hit s \<Rightarrow> (Inr s, w1\<lparr>trace := trace w1 @ [Loaded cname]\<rparr>)
              | Stale \<Rightarrow> parse_and_store env subpath config self
                           (w1\<lparr>trace := trace w1 @ [Loaded cname]\<rparr>)
              | Raised \<Rightarrow> parse_and_store env subpath config self warned))"
proof -
  have again: "cached_name d subpath w1 = (Inr cname, w1)"
    using cached_name_again [OF cn] by simp
  show ?thesis
    using d rd cn
    by (simp add: Song_init_def Let_def load_cached_eval [OF again] exists_def isfile_def
        split: option.splits content.splits lookup.splits)
qed

lemma restore_Inr_attrs:
  "restore (PDict kvs) as self = Inr s \<Longrightarrow>
     attrs s a = (if a \<in> set as then map_of kvs a else attrs self a)"
proof (induction as arbitrary: self)
  case Nil
  then show ?case by simp
next
  case (Cons x xs)
  from Cons.prems obtain v where v: "map_of kvs x = Some v"
    and r: "restore (PDict kvs) xs (setattr x v self) = Inr s"
    by (auto simp: subscript_def split: option.splits sum.splits)
  from Cons.IH [OF r] v show ?case by auto
qed

lemma restore_Inr_fields:
  "restore c as self = Inr s \<Longrightarrow>
     s_datadir s = s_datadir self \<and> s_fullpath s = s_fullpath self
     \<and> s_encoding s = s_encoding self \<and> s_config s = s_config self"
proof (induction as arbitrary: self)
  case Nil
  then show ?case by simp
next
  case (Cons x xs)
  from Cons.prems obtain v where "restore c xs (setattr x v self) = Inr s"
    by (auto split: sum.splits)
  from Cons.IH [OF this] show ?case by simp
qed

lemma restore_total:
  "list_all (\<lambda>a. map_of kvs a \<noteq> None) as \<Longrightarrow> \<exists>s. restore (PDict kvs) as self = Inr s"
  by (induction as arbitrary: self) (auto simp: subscript_def)

lemma restore_Inr_keys:
  "restore (PDict kvs) as self = Inr s \<Longrightarrow> list_all (\<lambda>a. map_of kvs a \<noteq> None) as"
  by (induction as arbitrary: self) (auto simp: subscript_def split: option.splits sum.splits)

lemma use_cached_PDict:
  "use_cached (PDict kvs) self =
     (case map_of kvs ''_filehash'' of
        None \<Rightarrow> Raised
      | Some h \<Rightarrow>
          if Some h = attrs self ''_filehash'' then
            (case map_of kvs ''_version'' of
               None \<Rightarrow> Raised
             | Some v \<Rightarrow>
                 if v = PInt CACHE_VERSION then
                   (case restore (PDict kvs) cached_attributes self of
                      Inl e \<Rightarrow> Raised
                    | Inr s \<Rightarrow> Hit s)
                 else Stale)
          else Stale)"
  by (simp add: use_cached_def subscript_def split: option.splits)

lemma use_cached_not_dict:
  "(\<And>kvs. v \<noteq> PDict kvs) \<Longrightarrow> use_cached v self = Raised"
  by (cases v) (auto simp: use_cached_def subscript_def)

lemma unusable_Raised:
  assumes "unusable h (Pickle v)" and "attrs self ''_filehash'' = Some (PStr h)"
  shows "use_cached v self = Raised"
proof (cases v)
  case (PDict kvs)
  have "\<not> has_all_keys kvs \<Longrightarrow> \<exists>e. restore (PDict kvs) cached_attributes self = Inl e"
    using restore_Inr_keys [of kvs cached_attributes self]
    by (cases "restore (PDict kvs) cached_attributes self") (auto simp: has_all_keys_def)
  then show ?thesis
    using assms PDict
    by (auto simp: unusable_def use_cached_PDict split: option.splits)
qed (simp_all add: use_cached_def subscript_def)

text \<open>The miss path: with no cache file the constructor goes straight to the parse
  hook.\<close>

lemma Song_init_no_cache_file:
  assumes "d \<noteq> []"
    and "read_file w (path_join d subpath) = Inr bytes"
    and "cached_name d subpath w = (Inr cname, w1)"
    and "\<not> exists w1 cname"
  shows "Song_init env subpath config (Some d) w =
           parse_and_store env subpath config
             (setattr ''_filehash'' (PStr (md5_hexdigest env bytes))
                (new_song subpath config (Some d))) w1"
  using assms(4) unfolding Song_init_cases [OF assms(1-3)]
  by (simp add: Let_def exists_def isfile_def split: option.splits)

lemma Song_init_unusable:
  assumes "d \<noteq> []"
    and "read_file w (path_join d subpath) = Inr bytes"
    and "cached_name d subpath w = (Inr cname, w1)"
    and "files w (abspath w cname) = Some c"
    and "unusable (md5_hexdigest env bytes) c"
  shows "Song_init env subpath config (Some d) w =
           parse_and_store env subpath config
             (setattr ''_filehash'' (PStr (md5_hexdigest env bytes))
                (new_song subpath config (Some d)))
             (w1\<lparr>trace := trace w1
                  @ [Loaded cname, Warned (warning_text (path_join d subpath))]\<rparr>)"
proof -
  let ?self = "setattr ''_filehash'' (PStr (md5_hexdigest env bytes))
                 (new_song subpath config (Some d))"
  note cn = cached_name_Inr [OF assms(3)]
  have f: "files w1 (abspath w1 cname) = Some c"
    using assms(4) cn(3) abspath_cwd [OF cn(4)] by simp
  show ?thesis
  proof (cases c)
    case (Bytes b)
    with f show ?thesis
      unfolding Song_init_cases [OF assms(1-3)] by (simp add: Let_def)
  next
    case (Pickle v)
    have "use_cached v ?self = Raised"
      using unusable_Raised [of "md5_hexdigest env bytes" v ?self] assms(5) Pickle by simp
    with f Pickle show ?thesis
      unfolding Song_init_cases [OF assms(1-3)] by (simp add: Let_def)
  qed
qed

text \<open>A dictionary that lacks keys, and whose hash or version is read and differs
  before a missing key is read, is a stale snapshot: nothing is raised.\<close>

lemma broken_Stale:
  assumes "broken (Pickle v)" and "\<not> unusable h (Pickle v)"
    and "attrs self ''_filehash'' = Some (PStr h)"
  shows "use_cached v self = Stale"
proof (cases v)
  case (PDict kvs)
  with assms show ?thesis
    by (auto simp: broken_def unusable_def use_cached_PDict split: option.splits)
qed (insert assms, simp_all add: unusable_def)

lemma Song_init_broken_stale:
  assumes "d \<noteq> []"
    and "read_file w (path_join d subpath) = Inr bytes"
    and "cached_name d subpath w = (Inr cname, w1)"
    and "files w (abspath w cname) = Some c"
    and "broken c" and "\<not> unusable (md5_hexdigest env bytes) c"
  shows "Song_init env subpath config (Some d) w =
           parse_and_store env subpath config
             (setattr ''_filehash'' (PStr (md5_hexdigest env bytes))
                (new_song subpath config (Some d)))
             (w1\<lparr>trace := trace w1 @ [Loaded cname]\<rparr>)"
proof -
  let ?self = "setattr ''_filehash'' (PStr (md5_hexdigest env bytes))
                 (new_song subpath config (Some d))"
  note cn = cached_name_Inr [OF assms(3)]
  have f: "files w1 (abspath w1 cname) = Some c"
    using assms(4) cn(3) abspath_cwd [OF cn(4)] by simp
  from assms(6) obtain v where v: "c = Pickle v" by (cases c) (simp_all add: unusable_def)
  have "use_cached v ?self = Stale"
    using broken_Stale [of v "md5_hexdigest env bytes" ?self] assms(5,6) v by simp
  with f v show ?thesis
    unfolding Song_init_cases [OF assms(1-3)] by (simp add: Let_def)
qed

text \<open>
  C3, as amended. A cache file that holds no full snapshot (\<open>broken\<close>: bytes that do
  not unpickle, a pickled value that is no dictionary, or a dictionary that lacks a
  required key) never makes the construction fail at the cache-load step: the
  construction is the run of the miss path (parse hook, post processing, write of the
  cache: the function of \<open>Song_init_no_cache_file\<close>) on the song as it was before the
  load. The warning that names the path of the song is logged before that run exactly
  when the load raised (\<open>unusable\<close>: the bytes do not unpickle, the value is no
  dictionary, or a key is missing at the moment the constructor reads it). When the
  stored hash or version is read and differs, the constructor reads no further key:
  the file is taken as stale and no warning is logged, whatever keys it lacks.
\<close>

theorem C3_broken_cache_is_a_miss:
  assumes "d \<noteq> []"
    and "read_file w (path_join d subpath) = Inr bytes"
    and "cached_name d subpath w = (Inr cname, w1)"
    and "files w (abspath w cname) = Some c"
    and "broken c"
  shows "Song_init env subpath config (Some d) w =
           parse_and_store env subpath config
             (setattr ''_filehash'' (PStr (md5_hexdigest env bytes))
                (new_song subpath config (Some d)))
             (w1\<lparr>trace := trace w1 @
                  (if unusable (md5_hexdigest env bytes) c
                   then [Loaded cname, Warned (warning_text (path_join d subpath))]
                   else [Loaded cname])\<rparr>)"
proof (cases "unusable (md5_hexdigest env bytes) c")
  case True
  with Song_init_unusable [OF assms(1-4) True] show ?thesis by simp
next
  case False
  with Song_init_broken_stale [OF assms(1-5) False] show ?thesis by simp
qed

text \<open>The example world with a cache file: the song is readable, the cache
  directory exists, and the cache file holds the given content.\<close>

lemma ex_cached_facts:
  "read_file (ex_cached c) (path_join ''d'' ''a.sg'') = Inr (Bytes ''The Song'')"
  "cached_name ''d'' ''a.sg'' (ex_cached c) = (Inr ''/w/d/.cache/a.sg'', ex_cached c)"
  "files (ex_cached c) (abspath (ex_cached c) ''/w/d/.cache/a.sg'') = Some c"
  by (simp_all add: ev ex_cached_def read_file_def)

text \<open>Two cache files on which the load raises: bytes that do not unpickle, and a
  dictionary with the right hash and version and no other key.\<close>

theorem C3_broken_cache_witness:
  "Song_init ex_env ''a.sg'' ex_config (Some ''d'') (ex_cached (Bytes ''garbage''))
       = parse_and_store ex_env ''a.sg'' ex_config
           (setattr ''_filehash'' (PStr (md5_hexdigest ex_env (Bytes ''The Song'')))
              (new_song ''a.sg'' ex_config (Some ''d'')))
           (ex_cached (Bytes ''garbage'')
              \<lparr>trace := trace (ex_cached (Bytes ''garbage''))
                 @ [Loaded ''/w/d/.cache/a.sg'',
                    Warned (warning_text (path_join ''d'' ''a.sg''))]\<rparr>)
   \<and> trace (snd (Song_init ex_env ''a.sg'' ex_config (Some ''d'') (ex_cached (Bytes ''garbage''))))
       = [Loaded ''/w/d/.cache/a.sg'', Warned ''Could not use cached version of d/a.sg.'',
          Parsed ''d/a.sg'', Stored ''/w/d/.cache/a.sg'']
   \<and> Song_init ex_env ''a.sg'' ex_config (Some ''d'')
         (ex_cached (Pickle (PDict [(''_filehash'', PStr ''md5:The Song''), (''_version'', PInt 2)])))
       = parse_and_store ex_env ''a.sg'' ex_config
           (setattr ''_filehash'' (PStr (md5_hexdigest ex_env (Bytes ''The Song'')))
              (new_song ''a.sg'' ex_config (Some ''d'')))
           (ex_cached (Pickle (PDict [(''_filehash'', PStr ''md5:The Song''), (''_version'', PInt 2)]))
              \<lparr>trace := trace (ex_cached (Pickle (PDict [(''_filehash'', PStr ''md5:The Song''),
                                                         (''_version'', PInt 2)])))
                 @ [Loaded ''/w/d/.cache/a.sg'',
                    Warned (warning_text (path_join ''d'' ''a.sg''))]\<rparr>)"
proof -
  let ?k = "Pickle (PDict [(''_filehash'', PStr ''md5:The Song''), (''_version'', PInt 2)])"
  have d: "''d'' \<noteq> []" by simp
  have b1: "broken (Bytes ''garbage'')" and b2: "broken ?k"
    by (simp_all add: broken_def has_all_keys_def cached_attributes_def)
  have u1: "unusable (md5_hexdigest ex_env (Bytes ''The Song'')) (Bytes ''garbage'')"
    and u2: "unusable (md5_hexdigest ex_env (Bytes ''The Song'')) ?k"
    by (simp_all add: unusable_def has_all_keys_def cached_attributes_def ex_env_def
        CACHE_VERSION_def)
  note t1 = C3_broken_cache_is_a_miss [OF d ex_cached_facts(1) ex_cached_facts(2)
      ex_cached_facts(3) b1, where config = ex_config and env = ex_env]
  note t2 = C3_broken_cache_is_a_miss [OF d ex_cached_facts(1) ex_cached_facts(2)
      ex_cached_facts(3) b2, where config = ex_config and env = ex_env]
  have tr: "trace (snd (Song_init ex_env ''a.sg'' ex_config (Some ''d'') (ex_cached (Bytes ''garbage''))))
       = [Loaded ''/w/d/.cache/a.sg'', Warned ''Could not use cached version of d/a.sg.'',
          Parsed ''d/a.sg'', Stored ''/w/d/.cache/a.sg'']"
    by code_simp
  from t1 t2 u1 u2 tr show ?thesis by simp
qed

text \<open>
  The claim as stated, with a warning for every cache file that lacks a required
  snapshot key, fails on a dictionary that holds nothing but the hash of an older song
  file: the hashes differ, no other key is read, nothing is raised, and the construction
  parses and writes the cache without a warning.
\<close>

theorem C3_stale_missing_keys_counterexample:
  "broken (Pickle (PDict [(''_filehash'', PStr ''md5:old'')]))
   \<and> \<not> has_all_keys [(''_filehash'', PStr ''md5:old'')]
   \<and> \<not> isl (fst (Song_init ex_env ''a.sg'' ex_config (Some ''d'')
                     (ex_cached (Pickle (PDict [(''_filehash'', PStr ''md5:old'')])))))
   \<and> trace (snd (Song_init ex_env ''a.sg'' ex_config (Some ''d'')
                    (ex_cached (Pickle (PDict [(''_filehash'', PStr ''md5:old'')])))))
       = [Loaded ''/w/d/.cache/a.sg'', Parsed ''d/a.sg'', Stored ''/w/d/.cache/a.sg'']"
proof -
  have "\<not> has_all_keys [(''_filehash'', PStr ''md5:old'')]"
    by (simp add: has_all_keys_def cached_attributes_def)
  moreover have "\<not> isl (fst (Song_init ex_env ''a.sg'' ex_config (Some ''d'')
                     (ex_cached (Pickle (PDict [(''_filehash'', PStr ''md5:old'')])))))"
    by code_simp
  moreover have "trace (snd (Song_init ex_env ''a.sg'' ex_config (Some ''d'')
                    (ex_cached (Pickle (PDict [(''_filehash'', PStr ''md5:old'')])))))
       = [Loaded ''/w/d/.cache/a.sg'', Parsed ''d/a.sg'', Stored ''/w/d/.cache/a.sg'']"
    by code_simp
  ultimately show ?thesis by (simp add: broken_def)
qed

lemma write_file_Inr:
  "write_file w p c = Inr w' \<Longrightarrow> w' = w\<lparr>files := (files w)(abspath w p \<mapsto> c)\<rparr>"
  by (simp add: write_file_def split: if_splits)

lemma collect_map_of:
  "collect at as = Inr kvs \<Longrightarrow> a \<in> set as \<Longrightarrow> map_of kvs a = at a"
proof (induction as arbitrary: kvs)
  case Nil
  then show ?case by simp
next
  case (Cons x xs)
  from Cons.prems(1) obtain v kvs' where v: "at x = Some v"
    and c: "collect at xs = Inr kvs'" and k: "kvs = (x, v) # kvs'"
    by (auto split: option.splits sum.splits)
  show ?case
  proof (cases "a = x")
    case True
    with v k show ?thesis by simp
  next
    case False
    with Cons.prems(2) have "a \<in> set xs" by simp
    from Cons.IH [OF c this] False k show ?thesis by simp
  qed
qed

lemma collect_keys:
  "collect at as = Inr kvs \<Longrightarrow> list_all (\<lambda>a. map_of kvs a \<noteq> None) as"
proof -
  assume c: "collect at as = Inr kvs"
  have "collect at as = Inr kvs \<Longrightarrow> list_all (\<lambda>a. at a \<noteq> None) as" for kvs
    by (induction as arbitrary: kvs) (auto split: option.splits sum.splits)
  with c have "list_all (\<lambda>a. at a \<noteq> None) as" by simp
  then show ?thesis using collect_map_of [OF c] by (simp add: list_all_iff)
qed

lemma write_cache_Inl:
  assumes "write_cache self w = (Inl e, w')"
  shows "files w' = files w \<and> cwd w' = cwd w \<and> trace w' = trace w"
proof (cases "s_datadir self = []")
  case True
  with assms show ?thesis by (simp add: write_cache_def)
next
  case False
  show ?thesis
  proof (cases "collect (attrs self) cached_attributes")
    case (Inl x)
    with assms False show ?thesis by (simp add: write_cache_def)
  next
    case (Inr snap)
    show ?thesis
    proof (cases "attrs self ''subpath''")
      case None
      with assms False Inr show ?thesis by (simp add: write_cache_def)
    next
      case (Some v)
      show ?thesis
      proof (cases "\<exists>sp. v = PStr sp")
        case False
        with assms \<open>s_datadir self \<noteq> []\<close> Inr Some show ?thesis
          by (cases v) (simp_all add: write_cache_def)
      next
        case True
        then obtain sp where sp: "v = PStr sp" by blast
        obtain r wa where cn: "cached_name (s_datadir self) sp w = (r, wa)"
          by (cases "cached_name (s_datadir self) sp w")
        show ?thesis
        proof (cases r)
          case (Inl x)
          with assms \<open>s_datadir self \<noteq> []\<close> Inr Some sp cn cached_name_Inl [of "s_datadir self" sp w x wa]
          show ?thesis by (simp add: write_cache_def)
        next
          case r: (Inr cname)
          note c = cached_name_Inr [OF cn [unfolded r]]
          from assms \<open>s_datadir self \<noteq> []\<close> Inr Some sp cn r have "w' = wa"
            by (simp add: write_cache_def split: sum.splits)
          with c show ?thesis by simp
        qed
      qed
    qed
  qed
qed

lemma write_cache_Inr:
  assumes "write_cache self w = (Inr u, w')" and "s_datadir self \<noteq> []"
  shows "\<exists>snap sp cname wa.
           collect (attrs self) cached_attributes = Inr snap
           \<and> attrs self ''subpath'' = Some (PStr sp)
           \<and> cached_name (s_datadir self) sp w = (Inr cname, wa)
           \<and> w' = wa\<lparr>files := (files wa)(abspath wa cname \<mapsto> Pickle (PDict snap)),
                      trace := trace wa @ [Stored cname]\<rparr>"
proof -
  from assms obtain snap where snap: "collect (attrs self) cached_attributes = Inr snap"
    by (cases "collect (attrs self) cached_attributes") (simp_all add: write_cache_def)
  from assms snap obtain v where v: "attrs self ''subpath'' = Some v"
    by (cases "attrs self ''subpath''") (simp_all add: write_cache_def)
  from assms snap v obtain sp where sp: "v = PStr sp"
    by (cases v) (simp_all add: write_cache_def)
  obtain r wa where cn: "cached_name (s_datadir self) sp w = (r, wa)"
    by (cases "cached_name (s_datadir self) sp w")
  from assms snap v sp cn obtain cname where r: "r = Inr cname"
    by (cases r) (simp_all add: write_cache_def)
  from assms snap v sp cn r obtain wb
    where wf: "write_file wa cname (Pickle (PDict snap)) = Inr wb"
      and w': "w' = wb\<lparr>trace := trace wb @ [Stored cname]\<rparr>"
    by (cases "write_file wa cname (Pickle (PDict snap))") (simp_all add: write_cache_def)
  from write_file_Inr [OF wf] w'
  have "w' = wa\<lparr>files := (files wa)(abspath wa cname \<mapsto> Pickle (PDict snap)),
                  trace := trace wa @ [Stored cname]\<rparr>"
    by simp
  with snap v sp cn r show ?thesis by blast
qed

lemma assign_parsed_filehash:
  "attrs (assign_parsed p self) ''_filehash'' = attrs self ''_filehash''"
  by (simp add: assign_parsed_def Let_def)

lemma parse_and_store_Inl:
  assumes "parse_and_store env subpath config self w = (Inl e, w')"
  shows "files w' = files w \<and> cwd w' = cwd w
         \<and> trace w' = trace w @ [Parsed (s_fullpath self)]"
proof (cases "parse_hook env (files w) (s_fullpath self) (s_encoding self) config")
  case (Inl x)
  with assms show ?thesis by (auto simp: parse_and_store_unfold)
next
  case (Inr p)
  let ?a = "assign_parsed p (setattr ''cached'' PNone (setattr ''data'' (PDict [])
              (setattr ''titles'' (PList []) self)))"
  let ?w = "w\<lparr>trace := trace w @ [Parsed (s_fullpath self)]\<rparr>"
  show ?thesis
  proof (cases "post_process env subpath config p ?a")
    case (Inl x)
    with assms Inr show ?thesis by (auto simp: parse_and_store_unfold)
  next
    case s: (Inr s)
    obtain r wa where wc: "write_cache s ?w = (r, wa)" by (cases "write_cache s ?w")
    from assms Inr s wc obtain e' where "r = Inl e'" "w' = wa"
      by (cases r) (auto simp: parse_and_store_unfold)
    with write_cache_Inl [of s ?w e' wa] wc show ?thesis by simp
  qed
qed

lemma parse_and_store_Inr:
  assumes "parse_and_store env subpath config self w = (Inr s, w')"
    and "s_datadir self \<noteq> []"
  shows "\<exists>snap cname wa.
           collect (attrs s) cached_attributes = Inr snap
           \<and> cached_name (s_datadir self) subpath
               (w\<lparr>trace := trace w @ [Parsed (s_fullpath self)]\<rparr>) = (Inr cname, wa)
           \<and> w' = wa\<lparr>files := (files wa)(abspath wa cname \<mapsto> Pickle (PDict snap)),
                      trace := trace wa @ [Stored cname]\<rparr>
           \<and> attrs s ''_filehash'' = attrs self ''_filehash''
           \<and> attrs s ''_version'' = Some (PInt CACHE_VERSION)"
proof (cases "parse_hook env (files w) (s_fullpath self) (s_encoding self) config")
  case (Inl x)
  with assms show ?thesis by (auto simp: parse_and_store_unfold)
next
  case (Inr p)
  let ?a = "assign_parsed p (setattr ''cached'' PNone (setattr ''data'' (PDict [])
              (setattr ''titles'' (PList []) self)))"
  let ?w = "w\<lparr>trace := trace w @ [Parsed (s_fullpath self)]\<rparr>"
  show ?thesis
  proof (cases "post_process env subpath config p ?a")
    case (Inl x)
    with assms Inr show ?thesis by (auto simp: parse_and_store_unfold)
  next
    case pp: (Inr s0)
    note q = post_process_Inr [OF pp]
    obtain r wa where wc: "write_cache s0 ?w = (r, wa)" by (cases "write_cache s0 ?w")
    from assms(1) Inr pp wc have r: "r = Inr ()" and s: "s = s0" and w': "w' = wa"
      by (cases r; auto simp: parse_and_store_unfold)+
    have dd: "s_datadir s0 \<noteq> []" and dd': "s_datadir s0 = s_datadir self"
      using assms(2) q(1) by simp_all
    from write_cache_Inr [OF wc [unfolded r] dd] obtain snap sp cname wb where
      x: "collect (attrs s0) cached_attributes = Inr snap"
         "attrs s0 ''subpath'' = Some (PStr sp)"
         "cached_name (s_datadir s0) sp ?w = (Inr cname, wb)"
         "wa = wb\<lparr>files := (files wb)(abspath wb cname \<mapsto> Pickle (PDict snap)),
                    trace := trace wb @ [Stored cname]\<rparr>"
      by blast
    from x(2) q(5) have sp: "sp = subpath" by simp
    have fh: "attrs s0 ''_filehash'' = attrs self ''_filehash''"
      using q(7) by (simp add: assign_parsed_filehash)
    from x(1,3,4) sp fh q(6) s w' dd' show ?thesis by simp
  qed
qed

lemma parse_and_store_parses:
  assumes "s_datadir self \<noteq> []"
  shows "parses (snd (parse_and_store env subpath config self w)) = Suc (parses w)"
proof -
  obtain r w' where ps: "parse_and_store env subpath config self w = (r, w')"
    by (cases "parse_and_store env subpath config self w")
  have "parses w' = Suc (parses w)"
  proof (cases r)
    case (Inl e)
    with parse_and_store_Inl [of env subpath config self w e w'] ps
    show ?thesis by (simp add: parses_def)
  next
    case (Inr s)
    from parse_and_store_Inr [OF ps [unfolded Inr] assms] obtain snap cname wa where
      cn: "cached_name (s_datadir self) subpath
             (w\<lparr>trace := trace w @ [Parsed (s_fullpath self)]\<rparr>) = (Inr cname, wa)"
      and w': "w' = wa\<lparr>files := (files wa)(abspath wa cname \<mapsto> Pickle (PDict snap)),
                      trace := trace wa @ [Stored cname]\<rparr>"
      by blast
    from cached_name_Inr(5) [OF cn] w' show ?thesis by (simp add: parses_def)
  qed
  with ps show ?thesis by simp
qed

text \<open>
  C2. For a cache file that unpickles to a snapshot with every key: when the stored
  hash is the hash of the bytes of the song file and the stored version is
  \<open>CACHE_VERSION\<close>, the construction returns the song restored from the snapshot and
  the parse hook is not called; otherwise it is the run of the miss path, which calls
  the parse hook once. Up to the start of the miss path the files are untouched, and
  when the construction ends the files are as they were, or the cache file holds a new
  snapshot with the current hash and version.
\<close>

theorem C2_hit_iff_hash_and_version:
  fixes env :: env and w w1 :: world and config :: config
  assumes "d \<noteq> []"
    and "read_file w (path_join d subpath) = Inr bytes"
    and "cached_name d subpath w = (Inr cname, w1)"
    and "files w (abspath w cname) = Some (Pickle (PDict kvs))"
    and "has_all_keys kvs"
  defines "h \<equiv> md5_hexdigest env bytes"
  defines "fresh \<equiv> map_of kvs ''_filehash'' = Some (PStr h)
                     \<and> map_of kvs ''_version'' = Some (PInt CACHE_VERSION)"
  defines "self \<equiv> setattr ''_filehash'' (PStr h) (new_song subpath config (Some d))"
  defines "loaded \<equiv> w1\<lparr>trace := trace w1 @ [Loaded cname]\<rparr>"
  shows "(fresh \<longrightarrow>
            (\<exists>s. Song_init env subpath config (Some d) w = (Inr s, loaded)
                 \<and> list_all (\<lambda>a. attrs s a = map_of kvs a) cached_attributes)
            \<and> parses loaded = parses w)
       \<and> (\<not> fresh \<longrightarrow>
            Song_init env subpath config (Some d) w
              = parse_and_store env subpath config self loaded
            \<and> parses (snd (Song_init env subpath config (Some d) w)) = Suc (parses w))
       \<and> files loaded = files w
       \<and> (\<forall>r w'. Song_init env subpath config (Some d) w = (r, w') \<longrightarrow>
            files w' = files w
            \<or> (\<exists>s snap. r = Inr s
                  \<and> files w' = (files w)(abspath w cname \<mapsto> Pickle (PDict snap))
                  \<and> map_of snap ''_filehash'' = Some (PStr h)
                  \<and> map_of snap ''_version'' = Some (PInt CACHE_VERSION)))"
proof -
  note cn = cached_name_Inr [OF assms(3)]
  have ab: "abspath w1 x = abspath w x" for x using abspath_cwd [OF cn(4)] .
  have f: "files w1 (abspath w1 cname) = Some (Pickle (PDict kvs))"
    using assms(4) cn(3) ab by simp
  have fl: "files loaded = files w" and tl: "parses loaded = parses w"
    and cl: "cwd loaded = cwd w"
    using cn(3,4,5) by (simp_all add: loaded_def parses_def)
  have sd: "s_datadir self = d" and sf: "attrs self ''_filehash'' = Some (PStr h)"
    by (simp_all add: self_def)
  obtain s0 where s0: "restore (PDict kvs) cached_attributes self = Inr s0"
    using restore_total [of kvs cached_attributes self] assms(5)
    by (auto simp: has_all_keys_def)
  have s0a: "list_all (\<lambda>a. attrs s0 a = map_of kvs a) cached_attributes"
    using restore_Inr_attrs [OF s0] by (simp add: list_all_iff)
  have uc: "use_cached (PDict kvs) self = (if fresh then Hit s0 else Stale)"
    using assms(5) s0 sf
    by (auto simp: use_cached_PDict fresh_def has_all_keys_def cached_attributes_def
        split: option.splits)
  have init: "Song_init env subpath config (Some d) w =
               (if fresh then (Inr s0, loaded) else parse_and_store env subpath config self loaded)"
    unfolding Song_init_cases [OF assms(1-3)]
    using f uc by (simp add: Let_def self_def h_def loaded_def)
  have hit: "fresh \<longrightarrow>
            (\<exists>s. Song_init env subpath config (Some d) w = (Inr s, loaded)
                 \<and> list_all (\<lambda>a. attrs s a = map_of kvs a) cached_attributes)
            \<and> parses loaded = parses w"
    using init s0a tl by auto
  have miss: "\<not> fresh \<longrightarrow>
            Song_init env subpath config (Some d) w
              = parse_and_store env subpath config self loaded
            \<and> parses (snd (Song_init env subpath config (Some d) w)) = Suc (parses w)"
    using init parse_and_store_parses [of self env subpath config loaded] sd assms(1) tl
    by simp
  have after: "files w' = files w
            \<or> (\<exists>s snap. r = Inr s
                  \<and> files w' = (files w)(abspath w cname \<mapsto> Pickle (PDict snap))
                  \<and> map_of snap ''_filehash'' = Some (PStr h)
                  \<and> map_of snap ''_version'' = Some (PInt CACHE_VERSION))"
    if si: "Song_init env subpath config (Some d) w = (r, w')" for r w'
  proof (cases fresh)
    case True
    with init si fl show ?thesis by simp
  next
    case False
    with init si have ps: "parse_and_store env subpath config self loaded = (r, w')" by simp
    show ?thesis
    proof (cases r)
      case (Inl e)
      with parse_and_store_Inl [of env subpath config self loaded e w'] ps fl
      show ?thesis by simp
    next
      case (Inr s)
      from parse_and_store_Inr [OF ps [unfolded Inr]] sd assms(1)
      obtain snap cname' wa where
        co: "collect (attrs s) cached_attributes = Inr snap"
        and cn': "cached_name d subpath
                    (loaded\<lparr>trace := trace loaded @ [Parsed (s_fullpath self)]\<rparr>) = (Inr cname', wa)"
        and w': "w' = wa\<lparr>files := (files wa)(abspath wa cname' \<mapsto> Pickle (PDict snap)),
                        trace := trace wa @ [Stored cname']\<rparr>"
        and a1: "attrs s ''_filehash'' = attrs self ''_filehash''"
        and a2: "attrs s ''_version'' = Some (PInt CACHE_VERSION)"
        by auto
      note c' = cached_name_Inr [OF cn']
      have same: "cname' = cname"
        using c'(1) cn(1) cl by (simp add: abspath_def)
      have "files wa = files w" "abspath wa cname = abspath w cname"
        using c'(3,4) fl cl by (simp_all add: abspath_def)
      with w' same have 1: "files w' = (files w)(abspath w cname \<mapsto> Pickle (PDict snap))"
        by simp
      have 2: "map_of snap ''_filehash'' = Some (PStr h)"
        using collect_map_of [OF co, of "''_filehash''"] a1 sf
        by (simp add: cached_attributes_def)
      have 3: "map_of snap ''_version'' = Some (PInt CACHE_VERSION)"
        using collect_map_of [OF co, of "''_version''"] a2
        by (simp add: cached_attributes_def)
      from Inr 1 2 3 show ?thesis by blast
    qed
  qed
  from hit miss fl after show ?thesis by blast
qed

theorem C2_hit_iff_witness:
  "(\<exists>s. Song_init ex_env ''a.sg'' ex_config (Some ''d'') (ex_cached (Pickle (PDict (ex_snapshot 2))))
          = (Inr s, ex_cached (Pickle (PDict (ex_snapshot 2)))
                      \<lparr>trace := trace (ex_cached (Pickle (PDict (ex_snapshot 2))))
                                   @ [Loaded ''/w/d/.cache/a.sg'']\<rparr>)
        \<and> attrs s ''unprefixed_titles'' = Some (PList [PStr ''Song'']))
   \<and> parses (snd (Song_init ex_env ''a.sg'' ex_config (Some ''d'')
                    (ex_cached (Pickle (PDict (ex_snapshot 1)))))) = 1"
proof -
  have d: "''d'' \<noteq> []" by simp
  have k: "has_all_keys (ex_snapshot v)" for v
    by (simp add: has_all_keys_def cached_attributes_def ex_snapshot_def)
  note t2 = C2_hit_iff_hash_and_version [OF d ex_cached_facts(1) ex_cached_facts(2)
      ex_cached_facts(3) [of "Pickle (PDict (ex_snapshot 2))"] k [of 2],
      where env = ex_env and config = ex_config]
  note t1 = C2_hit_iff_hash_and_version [OF d ex_cached_facts(1) ex_cached_facts(2)
      ex_cached_facts(3) [of "Pickle (PDict (ex_snapshot 1))"] k [of 1],
      where env = ex_env and config = ex_config]
  have fresh: "map_of (ex_snapshot 2) ''_filehash'' = Some (PStr (md5_hexdigest ex_env (Bytes ''The Song'')))
      \<and> map_of (ex_snapshot 2) ''_version'' = Some (PInt CACHE_VERSION)"
    by (simp add: ex_snapshot_def ex_env_def CACHE_VERSION_def)
  have stale: "\<not> (map_of (ex_snapshot 1) ''_filehash'' = Some (PStr (md5_hexdigest ex_env (Bytes ''The Song'')))
      \<and> map_of (ex_snapshot 1) ''_version'' = Some (PInt CACHE_VERSION))"
    by (simp add: ex_snapshot_def ex_env_def CACHE_VERSION_def)
  have p0: "parses (ex_cached c) = 0" for c
    by (simp add: parses_def ex_cached_def ex_world_def)
  from t2 fresh obtain s where
    s: "Song_init ex_env ''a.sg'' ex_config (Some ''d'') (ex_cached (Pickle (PDict (ex_snapshot 2))))
          = (Inr s, ex_cached (Pickle (PDict (ex_snapshot 2)))
                      \<lparr>trace := trace (ex_cached (Pickle (PDict (ex_snapshot 2))))
                                   @ [Loaded ''/w/d/.cache/a.sg'']\<rparr>)"
    and a: "list_all (\<lambda>a. attrs s a = map_of (ex_snapshot 2) a) cached_attributes"
    by blast
  from a have "attrs s ''unprefixed_titles'' = Some (PList [PStr ''Song''])"
    by (simp add: cached_attributes_def ex_snapshot_def)
  moreover from t1 stale
  have "parses (snd (Song_init ex_env ''a.sg'' ex_config (Some ''d'')
                    (ex_cached (Pickle (PDict (ex_snapshot 1))))))
          = Suc (parses (ex_cached (Pickle (PDict (ex_snapshot 1)))))"
    by blast
  then have "parses (snd (Song_init ex_env ''a.sg'' ex_config (Some ''d'')
                    (ex_cached (Pickle (PDict (ex_snapshot 1)))))) = 1"
    by (simp add: p0)
  ultimately show ?thesis using s by blast
qed

lemma Song_init_pickled_dict:
  assumes "d \<noteq> []"
    and "read_file w (path_join d subpath) = Inr bytes"
    and "cached_name d subpath w = (Inr cname, w1)"
    and "files w (abspath w cname) = Some (Pickle (PDict kvs))"
    and "has_all_keys kvs"
    and "map_of kvs ''_filehash'' = Some (PStr (md5_hexdigest env bytes))"
    and "map_of kvs ''_version'' = Some (PInt CACHE_VERSION)"
  shows "\<exists>s. Song_init env subpath config (Some d) w
                = (Inr s, w1\<lparr>trace := trace w1 @ [Loaded cname]\<rparr>)
             \<and> list_all (\<lambda>a. attrs s a = map_of kvs a) cached_attributes"
proof -
  let ?self = "setattr ''_filehash'' (PStr (md5_hexdigest env bytes))
                 (new_song subpath config (Some d))"
  note cn = cached_name_Inr [OF assms(3)]
  have f: "files w1 (abspath w1 cname) = Some (Pickle (PDict kvs))"
    using assms(4) cn(3) abspath_cwd [OF cn(4)] by simp
  obtain s0 where s0: "restore (PDict kvs) cached_attributes ?self = Inr s0"
    using restore_total [of kvs cached_attributes ?self] assms(5)
    by (auto simp: has_all_keys_def)
  have s0a: "list_all (\<lambda>a. attrs s0 a = map_of kvs a) cached_attributes"
    using restore_Inr_attrs [OF s0] by (simp add: list_all_iff)
  have uc: "use_cached (PDict kvs) ?self = Hit s0"
    using assms(6,7) s0 by (simp add: use_cached_PDict)
  have "Song_init env subpath config (Some d) w
          = (Inr s0, w1\<lparr>trace := trace w1 @ [Loaded cname]\<rparr>)"
    unfolding Song_init_cases [OF assms(1-3)]
    using f uc by (simp add: Let_def)
  with s0a show ?thesis by blast
qed

text \<open>After a construction that succeeded, the cache file holds a snapshot with the
  hash of the song file, the current version and the attributes of the song.\<close>

lemma cache_after_construction:
  assumes d: "d \<noteq> []"
    and first: "Song_init env subpath config (Some d) w = (Inr s1, w1)"
  shows "\<exists>bytes cname kvs.
           read_file w (path_join d subpath) = Inr bytes
           \<and> cached_name d subpath w1 = (Inr cname, w1)
           \<and> files w1 (abspath w1 cname) = Some (Pickle (PDict kvs))
           \<and> has_all_keys kvs
           \<and> map_of kvs ''_filehash'' = Some (PStr (md5_hexdigest env bytes))
           \<and> map_of kvs ''_version'' = Some (PInt CACHE_VERSION)
           \<and> list_all (\<lambda>a. attrs s1 a = map_of kvs a) cached_attributes"
proof -
  from first d obtain bytes where rd: "read_file w (path_join d subpath) = Inr bytes"
    by (cases "read_file w (path_join d subpath)") (auto simp: Song_init_def Let_def)
  obtain r wa where cn0: "cached_name d subpath w = (r, wa)"
    by (cases "cached_name d subpath w")
  from first d rd cn0 obtain cname where r: "r = Inr cname"
    by (cases r) (auto simp: Song_init_def Let_def)
  note cn = cn0 [unfolded r]
  note c = cached_name_Inr [OF cn]
  let ?h = "md5_hexdigest env bytes"
  let ?self = "setattr ''_filehash'' (PStr ?h) (new_song subpath config (Some d))"
  have sd: "s_datadir ?self = d" and sf: "attrs ?self ''_filehash'' = Some (PStr ?h)"
    by simp_all
  note init = first [unfolded Song_init_cases [OF d rd cn] Let_def]
  have stored: ?thesis
    if ps: "parse_and_store env subpath config ?self wx = (Inr s1, w1)"
      and cx: "cwd wx = cwd wa" and dx: "dirs wa \<subseteq> dirs wx" for wx
  proof -
    from parse_and_store_Inr [OF ps] sd d obtain snap cname' wb where
      co: "collect (attrs s1) cached_attributes = Inr snap"
      and cn': "cached_name d subpath
                  (wx\<lparr>trace := trace wx @ [Parsed (s_fullpath ?self)]\<rparr>) = (Inr cname', wb)"
      and w1: "w1 = wb\<lparr>files := (files wb)(abspath wb cname' \<mapsto> Pickle (PDict snap)),
                      trace := trace wb @ [Stored cname']\<rparr>"
      and a1: "attrs s1 ''_filehash'' = attrs ?self ''_filehash''"
      and a2: "attrs s1 ''_version'' = Some (PInt CACHE_VERSION)"
      by auto
    note c' = cached_name_Inr [OF cn']
    have same: "cname' = cname" using c'(1) c(1,4) cx by (simp add: abspath_def)
    have cw: "cwd w1 = cwd wb" "dirs wb \<subseteq> dirs w1" using w1 by simp_all
    have again: "cached_name d subpath w1 = (Inr cname, w1)"
      using cached_name_again [OF cn' cw] same by simp
    have fw: "files w1 (abspath w1 cname) = Some (Pickle (PDict snap))"
      using w1 same by (simp add: abspath_def)
    have k: "has_all_keys snap" using collect_keys [OF co] by (simp add: has_all_keys_def)
    have 2: "map_of snap ''_filehash'' = Some (PStr ?h)"
      using collect_map_of [OF co, of "''_filehash''"] a1 sf
      by (simp add: cached_attributes_def)
    have 3: "map_of snap ''_version'' = Some (PInt CACHE_VERSION)"
      using collect_map_of [OF co, of "''_version''"] a2
      by (simp add: cached_attributes_def)
    have 4: "list_all (\<lambda>a. attrs s1 a = map_of snap a) cached_attributes"
      using collect_map_of [OF co] by (simp add: list_all_iff)
    from rd again fw k 2 3 4 show ?thesis by blast
  qed
  show ?thesis
  proof (cases "files wa (abspath wa cname)")
    case None
    with init stored [of wa]
      stored [of "wa\<lparr>trace := trace wa @ [Loaded cname, Warned (warning_text (path_join d subpath))]\<rparr>"]
    show ?thesis by (auto split: if_splits)
  next
    case (Some c0)
    show ?thesis
    proof (cases c0)
      case (Bytes b)
      with init Some
        stored [of "wa\<lparr>trace := trace wa @ [Loaded cname, Warned (warning_text (path_join d subpath))]\<rparr>"]
      show ?thesis by auto
    next
      case (Pickle v)
      show ?thesis
      proof (cases "use_cached v ?self")
        case Stale
        with init Some Pickle stored [of "wa\<lparr>trace := trace wa @ [Loaded cname]\<rparr>"]
        show ?thesis by auto
      next
        case Raised
        with init Some Pickle
          stored [of "wa\<lparr>trace := trace wa @ [Loaded cname, Warned (warning_text (path_join d subpath))]\<rparr>"]
        show ?thesis by auto
      next
        case (Hit s)
        with init Some Pickle have s: "s = s1"
          and w1: "w1 = wa\<lparr>trace := trace wa @ [Loaded cname]\<rparr>" by auto
        from Hit obtain kvs where v: "v = PDict kvs"
          using use_cached_not_dict [of v ?self] by (cases v) auto
        from Hit [unfolded v use_cached_PDict] s
        have 2: "map_of kvs ''_filehash'' = Some (PStr ?h)"
          and 3: "map_of kvs ''_version'' = Some (PInt CACHE_VERSION)"
          and re: "restore (PDict kvs) cached_attributes ?self = Inr s1"
          by (auto split: option.splits if_splits sum.splits)
        have k: "has_all_keys kvs" using restore_Inr_keys [OF re] by (simp add: has_all_keys_def)
        have 4: "list_all (\<lambda>a. attrs s1 a = map_of kvs a) cached_attributes"
          using restore_Inr_attrs [OF re] by (simp add: list_all_iff)
        have again: "cached_name d subpath w1 = (Inr cname, w1)"
          using cached_name_again [OF cn, of w1] w1 by simp
        have fw: "files w1 (abspath w1 cname) = Some (Pickle (PDict kvs))"
          using Some Pickle v w1 by simp
        from rd again fw k 2 3 4 show ?thesis by blast
      qed
    qed
  qed
qed

lemma second_construction:
  assumes d: "d \<noteq> []"
    and first: "Song_init env subpath config (Some d) w = (Inr s1, w1)"
    and same: "read_file w1 (path_join d subpath) = read_file w (path_join d subpath)"
  shows "\<exists>s2 cname. Song_init env subpath config' (Some d) w1
                      = (Inr s2, w1\<lparr>trace := trace w1 @ [Loaded cname]\<rparr>)
           \<and> list_all (\<lambda>a. attrs s2 a = attrs s1 a) cached_attributes"
proof -
  from cache_after_construction [OF d first] obtain bytes cname kvs where
    rd: "read_file w (path_join d subpath) = Inr bytes"
    and cn: "cached_name d subpath w1 = (Inr cname, w1)"
    and fw: "files w1 (abspath w1 cname) = Some (Pickle (PDict kvs))"
    and k: "has_all_keys kvs"
    and h: "map_of kvs ''_filehash'' = Some (PStr (md5_hexdigest env bytes))"
    and v: "map_of kvs ''_version'' = Some (PInt CACHE_VERSION)"
    and a: "list_all (\<lambda>a. attrs s1 a = map_of kvs a) cached_attributes"
    by blast
  from rd same have rd1: "read_file w1 (path_join d subpath) = Inr bytes" by simp
  from Song_init_pickled_dict [OF d rd1 cn fw k h v, of config'] obtain s2 where
    "Song_init env subpath config' (Some d) w1
       = (Inr s2, w1\<lparr>trace := trace w1 @ [Loaded cname]\<rparr>)"
    "list_all (\<lambda>a. attrs s2 a = map_of kvs a) cached_attributes"
    by blast
  with a show ?thesis by (auto simp: list_all_iff)
qed

text \<open>With an absolute subpath the cache file is the song file itself, so that the
  construction overwrites the song: then the song file is not unchanged.\<close>

lemma cache_path_absolute_subpath:
  "isabs subpath \<Longrightarrow> path_join (path_join d ''.cache'') subpath = path_join d subpath"
  by (simp add: path_join_def)

text \<open>
  C1. After a construction with a base directory has succeeded, a second construction
  from the unchanged song file (it reads the same as before the first construction),
  with the same configuration, succeeds without calling the parse hook, and its titles,
  authors, data and languages are those of the first.
\<close>

theorem C1_second_construction_is_a_hit:
  assumes "d \<noteq> []"
    and "Song_init env subpath config (Some d) w = (Inr s1, w1)"
    and "read_file w1 (path_join d subpath) = read_file w (path_join d subpath)"
  shows "\<exists>s2 w2. Song_init env subpath config (Some d) w1 = (Inr s2, w2)
           \<and> parses w2 = parses w1
           \<and> attrs s2 ''titles'' = attrs s1 ''titles''
           \<and> attrs s2 ''authors'' = attrs s1 ''authors''
           \<and> attrs s2 ''data'' = attrs s1 ''data''
           \<and> attrs s2 ''languages'' = attrs s1 ''languages''"
proof -
  from second_construction [OF assms, of config] obtain s2 cname where
    i: "Song_init env subpath config (Some d) w1
          = (Inr s2, w1\<lparr>trace := trace w1 @ [Loaded cname]\<rparr>)"
    and a: "list_all (\<lambda>a. attrs s2 a = attrs s1 a) cached_attributes"
    by blast
  have "parses (w1\<lparr>trace := trace w1 @ [Loaded cname]\<rparr>) = parses w1"
    by (simp add: parses_def)
  with i a show ?thesis by (simp add: cached_attributes_def)
qed

text \<open>The first construction in the example world succeeds, writes the cache and
  leaves the song file as it was.\<close>

lemma ex_first:
  "\<not> isl (fst (Song_init ex_env ''a.sg'' ex_config (Some ''d'') ex_world))"
  "read_file (snd (Song_init ex_env ''a.sg'' ex_config (Some ''d'') ex_world)) (path_join ''d'' ''a.sg'')
     = read_file ex_world (path_join ''d'' ''a.sg'')"
  "attrs (projr (fst (Song_init ex_env ''a.sg'' ex_config (Some ''d'') ex_world))) ''titles''
     = Some (PList [PStr ''The Song''])"
  "attrs (projr (fst (Song_init ex_env ''a.sg'' ex_config (Some ''d'') ex_world))) ''unprefixed_titles''
     = Some (PList [PStr ''Song''])"
  by code_simp+

theorem C1_second_construction_witness:
  "\<exists>s2 w2. Song_init ex_env ''a.sg'' ex_config (Some ''d'')
              (snd (Song_init ex_env ''a.sg'' ex_config (Some ''d'') ex_world)) = (Inr s2, w2)
         \<and> parses w2 = parses (snd (Song_init ex_env ''a.sg'' ex_config (Some ''d'') ex_world))
         \<and> attrs s2 ''titles'' = Some (PList [PStr ''The Song''])"
proof -
  let ?first = "Song_init ex_env ''a.sg'' ex_config (Some ''d'') ex_world"
  have d: "''d'' \<noteq> []" by simp
  have f: "?first = (Inr (projr (fst ?first)), snd ?first)"
    using ex_first(1) by (cases "fst ?first") (simp_all add: prod_eq_iff)
  from C1_second_construction_is_a_hit [OF d f ex_first(2)] ex_first(3)
  show ?thesis by auto
qed

text \<open>
  C10. The cache hit does not look at the configuration: after a construction with a
  base directory has succeeded, a second construction from the unchanged song file
  with any other configuration succeeds without calling the parse hook, and its
  unprefixed titles and authors are the ones the first construction computed.
\<close>

theorem C10_cache_hit_ignores_config:
  assumes "d \<noteq> []"
    and "Song_init env subpath config (Some d) w = (Inr s1, w1)"
    and "read_file w1 (path_join d subpath) = read_file w (path_join d subpath)"
  shows "\<exists>s2 w2. Song_init env subpath config' (Some d) w1 = (Inr s2, w2)
           \<and> parses w2 = parses w1
           \<and> attrs s2 ''unprefixed_titles'' = attrs s1 ''unprefixed_titles''
           \<and> attrs s2 ''authors'' = attrs s1 ''authors''"
proof -
  from second_construction [OF assms, of config'] obtain s2 cname where
    i: "Song_init env subpath config' (Some d) w1
          = (Inr s2, w1\<lparr>trace := trace w1 @ [Loaded cname]\<rparr>)"
    and a: "list_all (\<lambda>a. attrs s2 a = attrs s1 a) cached_attributes"
    by blast
  have "parses (w1\<lparr>trace := trace w1 @ [Loaded cname]\<rparr>) = parses w1"
    by (simp add: parses_def)
  with i a show ?thesis by (simp add: cached_attributes_def)
qed

theorem C10_other_config_witness:
  "\<exists>s2 w2. Song_init ex_env ''a.sg'' (ex_config\<lparr>cfg_titleprefixwords := []\<rparr>) (Some ''d'')
              (snd (Song_init ex_env ''a.sg'' ex_config (Some ''d'') ex_world)) = (Inr s2, w2)
         \<and> parses w2 = parses (snd (Song_init ex_env ''a.sg'' ex_config (Some ''d'') ex_world))
         \<and> attrs s2 ''unprefixed_titles'' = Some (PList [PStr ''Song''])"
proof -
  let ?first = "Song_init ex_env ''a.sg'' ex_config (Some ''d'') ex_world"
  have d: "''d'' \<noteq> []" by simp
  have f: "?first = (Inr (projr (fst ?first)), snd ?first)"
    using ex_first(1) by (cases "fst ?first") (simp_all add: prod_eq_iff)
  from C10_cache_hit_ignores_config [OF d f ex_first(2),
      of "ex_config\<lparr>cfg_titleprefixwords := []\<rparr>"] ex_first(4)
  show ?thesis by auto
qed

end
